theory Spec2Isabelle
  imports Main "HOL-Library.AList"
begin

section \<open>bobafm: a shallow embedding of main.go\<close>

text \<open>
  The program is a terminal file manager written against the Bubble Tea toolkit. Its
  own code is the state machine \<open>Update\<close>, the catalog builder \<open>refreshBrowse\<close>,
  the text-entry commit \<open>handleInput\<close> and the helpers \<open>keys\<close> and \<open>copyFile\<close>.
  Go strings are byte strings, modelled as \<^typ>\<open>string\<close>. Everything the program calls
  in the Go standard library and in the toolkit is modelled below from its documented
  behaviour; a panic of the Go code is an explicit result.
\<close>

subsection \<open>Package strings\<close>

text \<open>
  \<open>strings.TrimSpace\<close> removes leading and trailing white space as Unicode defines
  it. On a byte string this means the UTF-8 encodings of the code points with the
  White_Space property: U+0009..U+000D, U+0020, U+0085, U+00A0, U+1680,
  U+2000..U+200A, U+2028, U+2029, U+202F, U+205F and U+3000.
\<close>

definition asciiSpace :: "string list" where
  "asciiSpace = [[CHR 0x09], [CHR 0x0A], [CHR 0x0B], [CHR 0x0C], [CHR 0x0D], [CHR 0x20]]"

definition unicodeSpace :: "string list" where
  "unicodeSpace = asciiSpace @
     [[CHR 0xC2, CHR 0x85], [CHR 0xC2, CHR 0xA0], [CHR 0xE1, CHR 0x9A, CHR 0x80],
      [CHR 0xE2, CHR 0x80, CHR 0x80], [CHR 0xE2, CHR 0x80, CHR 0x81],
      [CHR 0xE2, CHR 0x80, CHR 0x82], [CHR 0xE2, CHR 0x80, CHR 0x83],
      [CHR 0xE2, CHR 0x80, CHR 0x84], [CHR 0xE2, CHR 0x80, CHR 0x85],
      [CHR 0xE2, CHR 0x80, CHR 0x86], [CHR 0xE2, CHR 0x80, CHR 0x87],
      [CHR 0xE2, CHR 0x80, CHR 0x88], [CHR 0xE2, CHR 0x80, CHR 0x89],
      [CHR 0xE2, CHR 0x80, CHR 0x8A], [CHR 0xE2, CHR 0x80, CHR 0xA8],
      [CHR 0xE2, CHR 0x80, CHR 0xA9], [CHR 0xE2, CHR 0x80, CHR 0xAF],
      [CHR 0xE2, CHR 0x81, CHR 0x9F], [CHR 0xE3, CHR 0x80, CHR 0x80]]"

text \<open>The white-space encoding a string starts with, and the one it ends with.\<close>

definition leadingSpace :: "string \<Rightarrow> string option" where
  "leadingSpace s = find (\<lambda>w. take (length w) s = w) unicodeSpace"

definition trailingSpace :: "string \<Rightarrow> string option" where
  "trailingSpace s = find (\<lambda>w. length w \<le> length s \<and> drop (length s - length w) s = w) unicodeSpace"

function TrimLeftSpace :: "string \<Rightarrow> string" where
  "TrimLeftSpace s =
     (case leadingSpace s of
        None \<Rightarrow> s
      | Some w \<Rightarrow> if w = [] then s else TrimLeftSpace (drop (length w) s))"
  by pat_completeness auto

function TrimRightSpace :: "string \<Rightarrow> string" where
  "TrimRightSpace s =
     (case trailingSpace s of
        None \<Rightarrow> s
      | Some w \<Rightarrow> if w = [] then s else TrimRightSpace (take (length s - length w) s))"
  by pat_completeness auto

lemma leadingSpace_fits: "leadingSpace s = Some w \<Longrightarrow> take (length w) s = w"
  unfolding leadingSpace_def by (auto dest: find_Some_iff [THEN iffD1])

lemma trailingSpace_fits:
  "trailingSpace s = Some w \<Longrightarrow> length w \<le> length s \<and> drop (length s - length w) s = w"
  unfolding trailingSpace_def by (auto dest: find_Some_iff [THEN iffD1])

termination TrimLeftSpace
proof (relation "measure length")
  show "wf (measure length)" by simp
next
  fix s w :: string
  assume a: "leadingSpace s = Some w" and b: "w \<noteq> []"
  from leadingSpace_fits [OF a] have "length (take (length w) s) = length w" by simp
  then have "length w \<le> length s" by simp
  with b show "(drop (length w) s, s) \<in> measure length"
    by (cases w) auto
qed

termination TrimRightSpace
proof (relation "measure length")
  show "wf (measure length)" by simp
next
  fix s w :: string
  assume a: "trailingSpace s = Some w" and b: "w \<noteq> []"
  from trailingSpace_fits [OF a] have "length w \<le> length s" by simp
  with b show "(take (length s - length w) s, s) \<in> measure length"
    by (cases w) auto
qed

definition TrimSpace :: "string \<Rightarrow> string" where
  "TrimSpace s = TrimRightSpace (TrimLeftSpace s)"

definition HasSuffix :: "string \<Rightarrow> string \<Rightarrow> bool" where
  "HasSuffix s suffix \<longleftrightarrow>
     length suffix \<le> length s \<and> drop (length s - length suffix) s = suffix"

text \<open>\<open>strings.Split(s, sep)\<close> for a separator of one byte.\<close>

fun Split :: "string \<Rightarrow> char \<Rightarrow> string list" where
  "Split [] c = [[]]"
| "Split (x # xs) c =
     (if x = c then [] # Split xs c
      else (case Split xs c of [] \<Rightarrow> [[x]] | w # ws \<Rightarrow> (x # w) # ws))"

fun Join_strings :: "string list \<Rightarrow> string \<Rightarrow> string" where
  "Join_strings [] sep = []"
| "Join_strings [x] sep = x"
| "Join_strings (x # y # ys) sep = x @ sep @ Join_strings (y # ys) sep"

subsection \<open>Package path/filepath (Unix)\<close>

text \<open>
  \<open>filepath.Clean\<close> walks the elements of a path: empty elements and \<open>.\<close> are
  dropped, \<open>..\<close> removes the element before it when there is one, is dropped at the
  root, and is kept at the start of a relative path. The result of an empty path, and
  of a relative path that cleans to nothing, is \<open>.\<close>.
\<close>

definition cleanStep :: "bool \<Rightarrow> string list \<Rightarrow> string \<Rightarrow> string list" where
  "cleanStep rooted out e =
     (if e = [] \<or> e = ''.'' then out
      else if e = ''..'' then
        (if out \<noteq> [] \<and> last out \<noteq> ''..'' then butlast out
         else if rooted then out
         else out @ [''..''])
      else out @ [e])"

definition Clean :: "string \<Rightarrow> string" where
  "Clean path =
     (if path = [] then ''.''
      else
        let rooted = (hd path = CHR ''/'');
            out = foldl (cleanStep rooted) [] (Split path (CHR ''/''));
            res = (if rooted then ''/'' else []) @ Join_strings out ''/''
        in if res = [] then ''.'' else res)"

text \<open>\<open>filepath.Join\<close> of two elements: empty elements are ignored, the rest is
  joined by the separator and cleaned.\<close>

definition Join :: "string \<Rightarrow> string \<Rightarrow> string" where
  "Join a b =
     (if a \<noteq> [] then Clean (a @ ''/'' @ b)
      else if b \<noteq> [] then Clean b
      else [])"

text \<open>\<open>filepath.Dir\<close>: everything up to the last separator, cleaned.\<close>

definition upToLastSlash :: "string \<Rightarrow> string" where
  "upToLastSlash path = rev (dropWhile (\<lambda>c. c \<noteq> CHR ''/'') (rev path))"

definition Dir :: "string \<Rightarrow> string" where
  "Dir path = Clean (upToLastSlash path)"

text \<open>\<open>filepath.Base\<close>: the last element, trailing separators removed first.\<close>

definition Base :: "string \<Rightarrow> string" where
  "Base path =
     (if path = [] then ''.''
      else
        let stripped = rev (dropWhile (\<lambda>c. c = CHR ''/'') (rev path));
            elem = rev (takeWhile (\<lambda>c. c \<noteq> CHR ''/'') (rev stripped))
        in if elem = [] then ''/'' else elem)"

subsection \<open>Package os: the file system\<close>

text \<open>
  The file system is a finite table from absolute paths (lists of names below the
  root) to what is there: a regular file with its bytes, or a directory. The first
  entry for a path is the one that counts; the root is always a directory. There are
  no symbolic links, one volume, and no permissions: a call fails only for the
  structural reasons written out below (\<open>ENOENT\<close>, \<open>ENOTDIR\<close>, \<open>EEXIST\<close>,
  \<open>EISDIR\<close>, \<open>EINVAL\<close>). The process never changes its working directory, which is
  part of the world next to the environment variable \<open>EDITOR\<close>.
\<close>

type_synonym fpath = "string list"

datatype node = RegularFile string | Directory

datatype errno = ENOENT | ENOTDIR | EEXIST | EISDIR | EINVAL

record world =
  files :: "(fpath \<times> node) list"
  wd :: fpath
  EDITOR :: string

definition stat :: "world \<Rightarrow> fpath \<Rightarrow> node option" where
  "stat w p = (if p = [] then Some Directory else map_of (files w) p)"

text \<open>Name resolution: a path string is walked element by element from the root, or
  from the working directory when it is relative. The empty string names nothing.\<close>

definition walkStep :: "fpath \<Rightarrow> string \<Rightarrow> fpath" where
  "walkStep p e =
     (if e = [] \<or> e = ''.'' then p else if e = ''..'' then butlast p else p @ [e])"

definition resolve :: "world \<Rightarrow> string \<Rightarrow> fpath option" where
  "resolve w s =
     (if s = [] then None
      else Some (foldl walkStep (if hd s = CHR ''/'' then [] else wd w) (Split s (CHR ''/''))))"

definition Getwd :: "world \<Rightarrow> string" where
  "Getwd w = ''/'' @ Join_strings (wd w) ''/''"

text \<open>The parent of a path that is to be created has to be a directory.\<close>

definition parentCheck :: "world \<Rightarrow> fpath \<Rightarrow> errno option" where
  "parentCheck w p =
     (case stat w (butlast p) of
        None \<Rightarrow> Some ENOENT
      | Some (RegularFile b) \<Rightarrow> Some ENOTDIR
      | Some Directory \<Rightarrow> None)"

definition put :: "fpath \<Rightarrow> node \<Rightarrow> world \<Rightarrow> world" where
  "put p n w = w\<lparr>files := (p, n) # files w\<rparr>"

text \<open>\<open>os.ReadDir\<close>: the entries of a directory, sorted by name (bytewise).\<close>

record DirEntry =
  Name :: string
  IsDir :: bool

fun bytesLessEq :: "string \<Rightarrow> string \<Rightarrow> bool" where
  "bytesLessEq [] ys = True"
| "bytesLessEq (x # xs) [] = False"
| "bytesLessEq (x # xs) (y # ys) =
     ((of_char x :: nat) < of_char y \<or> (x = y \<and> bytesLessEq xs ys))"

fun insertName :: "string \<Rightarrow> string list \<Rightarrow> string list" where
  "insertName n [] = [n]"
| "insertName n (x # xs) = (if bytesLessEq n x then n # x # xs else x # insertName n xs)"

definition sortNames :: "string list \<Rightarrow> string list" where
  "sortNames ns = foldr insertName ns []"

definition validName :: "string \<Rightarrow> bool" where
  "validName n \<longleftrightarrow> n \<noteq> [] \<and> n \<noteq> ''.'' \<and> n \<noteq> ''..'' \<and> CHR ''/'' \<notin> set n"

definition childNames :: "world \<Rightarrow> fpath \<Rightarrow> string list" where
  "childNames w p =
     remdups (map (last \<circ> fst)
       (filter (\<lambda>(q, n). q \<noteq> [] \<and> butlast q = p \<and> validName (last q)) (files w)))"

definition ReadDir :: "world \<Rightarrow> string \<Rightarrow> errno + DirEntry list" where
  "ReadDir w s =
     (case resolve w s of
        None \<Rightarrow> Inl ENOENT
      | Some p \<Rightarrow>
          (case stat w p of
             None \<Rightarrow> Inl ENOENT
           | Some (RegularFile b) \<Rightarrow> Inl ENOTDIR
           | Some Directory \<Rightarrow>
               Inr (map (\<lambda>n. \<lparr>Name = n, IsDir = (stat w (p @ [n]) = Some Directory)\<rparr>)
                        (sortNames (childNames w p)))))"

text \<open>\<open>os.MkdirAll\<close> on a resolved path: nothing to do for a directory, an error
  for a file, and otherwise the parent first and then the directory itself. When it
  fails (a file stands where a directory is needed) nothing has been created.\<close>

function mkdirAllAt :: "world \<Rightarrow> fpath \<Rightarrow> errno + world" where
  "mkdirAllAt w p =
     (case stat w p of
        Some Directory \<Rightarrow> Inr w
      | Some (RegularFile b) \<Rightarrow> Inl ENOTDIR
      | None \<Rightarrow>
          (if p = [] then Inr w
           else (case mkdirAllAt w (butlast p) of
                   Inl e \<Rightarrow> Inl e
                 | Inr w' \<Rightarrow> Inr (put p Directory w'))))"
  by pat_completeness auto
termination
  by (relation "measure (length \<circ> snd)") auto

declare mkdirAllAt.simps [simp del]

definition MkdirAll :: "world \<Rightarrow> string \<Rightarrow> errno + world" where
  "MkdirAll w s = (case resolve w s of None \<Rightarrow> Inl ENOENT | Some p \<Rightarrow> mkdirAllAt w p)"

text \<open>\<open>os.OpenFile(name, O_CREATE|O_EXCL, 0644)\<close>: creates an empty file, and fails
  when anything is at the path already.\<close>

definition OpenFile_CREATE_EXCL :: "world \<Rightarrow> string \<Rightarrow> errno + world" where
  "OpenFile_CREATE_EXCL w s =
     (case resolve w s of
        None \<Rightarrow> Inl ENOENT
      | Some p \<Rightarrow>
          (case stat w p of
             Some n \<Rightarrow> Inl EEXIST
           | None \<Rightarrow>
               (case parentCheck w p of
                  Some e \<Rightarrow> Inl e
                | None \<Rightarrow> Inr (put p (RegularFile []) w))))"

text \<open>\<open>os.Open\<close> gives a handle on what is at the path (a file or a directory);
  \<open>os.Create\<close> creates the file or truncates it, and gives a handle on it. A handle is
  the resolved path: nothing is renamed or removed while one is open.\<close>

definition Open :: "world \<Rightarrow> string \<Rightarrow> errno + fpath" where
  "Open w s =
     (case resolve w s of
        None \<Rightarrow> Inl ENOENT
      | Some p \<Rightarrow> (case stat w p of None \<Rightarrow> Inl ENOENT | Some n \<Rightarrow> Inr p))"

definition Create :: "world \<Rightarrow> string \<Rightarrow> errno + (world \<times> fpath)" where
  "Create w s =
     (case resolve w s of
        None \<Rightarrow> Inl ENOENT
      | Some p \<Rightarrow>
          (case stat w p of
             Some Directory \<Rightarrow> Inl EISDIR
           | Some (RegularFile b) \<Rightarrow> Inr (put p (RegularFile []) w, p)
           | None \<Rightarrow>
               (case parentCheck w p of
                  Some e \<Rightarrow> Inl e
                | None \<Rightarrow> Inr (put p (RegularFile []) w, p))))"

text \<open>\<open>io.Copy(out, in)\<close> on two results of opening, \<open>out\<close> coming from
  \<open>os.Create\<close> (an empty file, written from its start): with a handle missing, or
  with a directory to read from, it fails and writes nothing.\<close>

definition Copy :: "world \<Rightarrow> errno + fpath \<Rightarrow> errno + fpath \<Rightarrow> world" where
  "Copy w out inp =
     (case (out, inp) of
        (Inr dst, Inr src) \<Rightarrow>
          (case (stat w dst, stat w src) of
             (Some (RegularFile old), Some (RegularFile b)) \<Rightarrow> put dst (RegularFile b) w
           | _ \<Rightarrow> w)
      | _ \<Rightarrow> w)"

definition ReadFile :: "world \<Rightarrow> string \<Rightarrow> errno + string" where
  "ReadFile w s =
     (case resolve w s of
        None \<Rightarrow> Inl ENOENT
      | Some p \<Rightarrow>
          (case stat w p of
             None \<Rightarrow> Inl ENOENT
           | Some Directory \<Rightarrow> Inl EISDIR
           | Some (RegularFile b) \<Rightarrow> Inr b))"

text \<open>\<open>os.Rename\<close>: Go refuses a destination that is a directory; otherwise
  rename(2): the source has to exist, a file replaces a file, a directory moves with
  everything below it to a path that does not exist and is not inside it.\<close>

definition below :: "fpath \<Rightarrow> fpath \<Rightarrow> bool" where
  "below p q \<longleftrightarrow> take (length p) q = p"

definition Rename :: "world \<Rightarrow> string \<Rightarrow> string \<Rightarrow> errno + world" where
  "Rename w oldname newname =
     (case (resolve w oldname, resolve w newname) of
        (Some old, Some new) \<Rightarrow>
          (case (stat w old, stat w new) of
             (None, t) \<Rightarrow> Inl ENOENT
           | (Some n, Some Directory) \<Rightarrow> Inl EEXIST
           | (Some (RegularFile b), t) \<Rightarrow>
               (if old = new then Inr w
                else (case parentCheck w new of
                        Some e \<Rightarrow> Inl e
                      | None \<Rightarrow>
                          Inr (put new (RegularFile b)
                                 (w\<lparr>files := filter (\<lambda>(q, n). q \<noteq> old) (files w)\<rparr>))))
           | (Some Directory, Some (RegularFile b)) \<Rightarrow> Inl ENOTDIR
           | (Some Directory, None) \<Rightarrow>
               (if below old new then Inl EINVAL
                else (case parentCheck w new of
                        Some e \<Rightarrow> Inl e
                      | None \<Rightarrow>
                          Inr (put new Directory
                                 (w\<lparr>files :=
                                      map (\<lambda>(q, n). if below old q
                                                     then (new @ drop (length old) q, n)
                                                     else (q, n))
                                          (filter (\<lambda>(q, n). q \<noteq> old) (files w))\<rparr>)))))
      | _ \<Rightarrow> Inl ENOENT)"

text \<open>\<open>os.RemoveAll\<close>: the path and everything below it; no error when nothing is
  there.\<close>

definition RemoveAll :: "world \<Rightarrow> string \<Rightarrow> world" where
  "RemoveAll w s =
     (case resolve w s of
        None \<Rightarrow> w
      | Some p \<Rightarrow> w\<lparr>files := filter (\<lambda>(q, n). \<not> below p q) (files w)\<rparr>)"

subsection \<open>The toolkit: messages, key bindings, widgets\<close>

text \<open>
  A key message is modelled by its \<open>String()\<close>, which is all \<open>key.Matches\<close> looks
  at (every binding of the program is enabled). Commands are the three the program
  returns itself, and the one a widget hands back.
\<close>

datatype msg = WindowSizeMsg int int | KeyMsg string | OtherMsg

datatype cmd = NoCmd | tea_Quit | tea_ExecProcess string string | WidgetCmd

record keyMap =
  Up :: "string list"
  Down :: "string list"
  Enter :: "string list"
  Mark :: "string list"
  Yank :: "string list"
  Cut :: "string list"
  Paste :: "string list"
  New :: "string list"
  Rename_key :: "string list"
  Delete :: "string list"
  View :: "string list"
  Mount :: "string list"
  ToggleHidden :: "string list"
  Filter :: "string list"
  Quit :: "string list"
  Back :: "string list"

definition newKeyMap :: keyMap where
  "newKeyMap =
     \<lparr>Up = [''up'', ''k''], Down = [''down'', ''j''], Enter = [''enter''], Mark = ['' ''],
      Yank = [''y''], Cut = [''x''], Paste = [''p''], New = [''i''], Rename_key = [''r''],
      Delete = [''d''], View = [''v''], Mount = [''m''], ToggleHidden = [''h''],
      Filter = [''/''], Quit = [''q''], Back = [''esc'']\<rparr>"

definition Matches :: "string \<Rightarrow> string list \<Rightarrow> bool" where
  "Matches k binding \<longleftrightarrow> k \<in> set binding"

text \<open>
  Of a \<open>list.Model\<close> the program uses the items, the selected item and the title.
  The model keeps the items, the index of the cursor and the title; \<open>SelectedItem\<close> is
  nil when the cursor is not on an item (an empty list). Filtering and pagination
  belong to the widget and are not modelled: no filter is applied.
\<close>

record 'a listModel =
  items :: "'a list"
  cursor :: nat
  title :: string

definition SelectedItem :: "'a listModel \<Rightarrow> 'a option" where
  "SelectedItem l = (if cursor l < length (items l) then Some (items l ! cursor l) else None)"

definition SetItems :: "'a list \<Rightarrow> 'a listModel \<Rightarrow> 'a listModel" where
  "SetItems is l = l\<lparr>items := is\<rparr>"

subsection \<open>The program's data\<close>

datatype Mode = ModeBrowse | ModeMounts | ModeInput | ModeView

datatype ClipboardMode = ClipNone | ClipCopy | ClipCut

record fileItem =
  name :: string
  path :: string
  isDir :: bool
  isParent :: bool

record mountItem =
  dev :: string
  mount :: string

text \<open>
  The struct \<open>model\<close>. The text input is its value, the viewport its content. The
  Go map \<open>marked\<close> is an association list with one pair for each key; Go leaves the
  order in which a map is ranged over open, the list ranges in the order the keys
  came in, and no statement below depends on it. The field \<open>keys\<close> always points at
  \<open>newKeyMap()\<close> and is replaced by that constant.
\<close>

record model =
  mode :: Mode
  cwd :: string
  showHidden :: bool
  browse :: "fileItem listModel"
  mounts :: "mountItem listModel"
  input :: string
  view :: string
  marked :: "(string \<times> bool) list"
  clipboard :: "string list"
  clipMode :: ClipboardMode
  editor :: string
  inputTarget :: string

text \<open>What the program does not own: the widgets' own reaction to a message, and
  the two external commands of the mount menu.\<close>

record env =
  browseUpdate :: "msg \<Rightarrow> fileItem listModel \<Rightarrow> fileItem listModel"
  mountsUpdate :: "msg \<Rightarrow> mountItem listModel \<Rightarrow> mountItem listModel"
  inputUpdate :: "msg \<Rightarrow> string \<Rightarrow> string"
  viewUpdate :: "msg \<Rightarrow> string \<Rightarrow> string"
  lsblk :: "world \<Rightarrow> string"
  udisksctl :: "string \<Rightarrow> string \<Rightarrow> world \<Rightarrow> world"

text \<open>A panic of the Go runtime ends the process; it is the left summand of every
  result below.\<close>

datatype panic = IndexOutOfRange | NilInterfaceConversion

definition andThen :: "panic + 'a \<Rightarrow> ('a \<Rightarrow> panic + 'b) \<Rightarrow> panic + 'b" where
  "andThen r f = (case r of Inl p \<Rightarrow> Inl p | Inr x \<Rightarrow> f x)"

text \<open>An error of the operating system is dropped, as the program drops it.\<close>

definition ignoring :: "world \<Rightarrow> errno + world \<Rightarrow> world" where
  "ignoring w r = (case r of Inl e \<Rightarrow> w | Inr w' \<Rightarrow> w')"

text \<open>Reading the map: a missing key reads as false.\<close>

definition isMarked :: "(string \<times> bool) list \<Rightarrow> string \<Rightarrow> bool" where
  "isMarked mk p = (case map_of mk p of None \<Rightarrow> False | Some b \<Rightarrow> b)"

definition Description :: "(string \<times> bool) list \<Rightarrow> fileItem \<Rightarrow> string" where
  "Description appMarked i =
     (let desc = (if isParent i then ''Parent Directory''
                  else if isDir i then ''Directory'' else ''File'')
      in if \<not> isParent i \<and> isMarked appMarked (path i) then desc @ '' [Marked]'' else desc)"

subsection \<open>refreshBrowse\<close>

text \<open>
  The loop over the entries, with the two slices it appends to. \<open>e.Name()[0]\<close> is
  read only when hidden files are not shown, and panics on an empty name.
\<close>

fun rangeEntries ::
  "bool \<Rightarrow> string \<Rightarrow> DirEntry list \<Rightarrow> fileItem list \<Rightarrow> fileItem list \<Rightarrow>
   panic + (fileItem list \<times> fileItem list)" where
  "rangeEntries sh d [] dirs fls = Inr (dirs, fls)"
| "rangeEntries sh d (e # es) dirs fls =
     (if \<not> sh \<and> Name e = [] then Inl IndexOutOfRange
      else if \<not> sh \<and> hd (Name e) = CHR ''.'' then rangeEntries sh d es dirs fls
      else
        let item = \<lparr>name = Name e, path = Join d (Name e), isDir = IsDir e, isParent = False\<rparr>
        in if IsDir e then rangeEntries sh d es (dirs @ [item]) fls
           else rangeEntries sh d es dirs (fls @ [item]))"

definition emDash :: string where
  "emDash = [CHR 0xE2, CHR 0x80, CHR 0x94]"

definition refreshBrowse :: "world \<Rightarrow> model \<Rightarrow> panic + model" where
  "refreshBrowse w m =
     (case ReadDir w (cwd m) of
        Inl err \<Rightarrow> Inr m
      | Inr entries \<Rightarrow>
          (let parent = Dir (cwd m);
               dirs0 = (if parent \<noteq> cwd m
                        then [\<lparr>name = ''..'', path = parent, isDir = True, isParent = True\<rparr>]
                        else [])
           in andThen (rangeEntries (showHidden m) (cwd m) entries dirs0 [])
                (\<lambda>(dirs, fls).
                   let its = dirs @ fls;
                       t0 = ''bobafm '' @ emDash @ '' '' @ cwd m;
                       t = (if showHidden m then t0 @ '' (hidden)'' else t0)
                   in Inr (m\<lparr>browse := SetItems its ((browse m)\<lparr>title := t\<rparr>)\<rparr>))))"

subsection \<open>refreshMounts\<close>

text \<open>\<open>strings.Fields\<close>: the maximal runs of bytes that are not white space. The
  counter is the number of bytes of a white-space encoding still to be skipped.\<close>

fun fieldsFrom :: "nat \<Rightarrow> string \<Rightarrow> string \<Rightarrow> string list" where
  "fieldsFrom k cur [] = (if cur = [] then [] else [cur])"
| "fieldsFrom (Suc k) cur (x # xs) = fieldsFrom k cur xs"
| "fieldsFrom 0 cur (x # xs) =
     (case leadingSpace (x # xs) of
        Some sp \<Rightarrow> (if cur = [] then [] else [cur]) @ fieldsFrom (length sp - 1) [] xs
      | None \<Rightarrow> fieldsFrom 0 (cur @ [x]) xs)"

definition Fields :: "string \<Rightarrow> string list" where
  "Fields s = fieldsFrom 0 [] s"

fun rangeLines :: "string list \<Rightarrow> mountItem list \<Rightarrow> mountItem list" where
  "rangeLines [] its = its"
| "rangeLines (line # rest) its =
     (case Fields line of
        [] \<Rightarrow> rangeLines rest its
      | [d] \<Rightarrow> rangeLines rest (its @ [\<lparr>dev = d, mount = []\<rparr>])
      | d # mp # others \<Rightarrow> rangeLines rest (its @ [\<lparr>dev = d, mount = mp\<rparr>]))"

definition refreshMounts :: "env \<Rightarrow> world \<Rightarrow> model \<Rightarrow> model" where
  "refreshMounts E w m =
     m\<lparr>mounts := SetItems (rangeLines (Split (lsblk E w) (CHR 0x0A)) []) (mounts m)\<rparr>"

subsection \<open>handleInput\<close>

definition handleInput :: "world \<Rightarrow> model \<Rightarrow> panic + (model \<times> world)" where
  "handleInput w m =
     (let inp = TrimSpace (input m) in
      if inp = [] then Inr (m, w)
      else
        andThen
          (if inputTarget m = ''create'' then
             (let full = Join (cwd m) inp;
                  isDirectory = HasSuffix inp ''/'';
                  parent = Dir full;
                  w1 = ignoring w (MkdirAll w parent)
              in if isDirectory then Inr (ignoring w1 (MkdirAll w1 full))
                 else Inr (ignoring w1 (OpenFile_CREATE_EXCL w1 full)))
           else if inputTarget m = ''rename'' then
             (case SelectedItem (browse m) of
                None \<Rightarrow> Inl NilInterfaceConversion
              | Some item \<Rightarrow>
                  (let dst = Join (cwd m) inp
                   in Inr (ignoring w (Rename w (path item) dst))))
           else Inr w)
          (\<lambda>w'. andThen (refreshBrowse w' (m\<lparr>mode := ModeBrowse\<rparr>)) (\<lambda>m'. Inr (m', w'))))"

subsection \<open>keys and copyFile\<close>

definition keys :: "(string \<times> bool) list \<Rightarrow> string list" where
  "keys mk = map fst mk"

definition copyFile :: "world \<Rightarrow> string \<Rightarrow> string \<Rightarrow> world" where
  "copyFile w src dst =
     (let inp = Open w src in
      case Create w dst of
        Inl e \<Rightarrow> Copy w (Inl e) inp
      | Inr (w1, h) \<Rightarrow> Copy w1 (Inr h) inp)"

subsection \<open>Update\<close>

text \<open>The loop of the paste case over the clipboard.\<close>

fun pasteRange :: "string \<Rightarrow> ClipboardMode \<Rightarrow> world \<Rightarrow> string list \<Rightarrow> world" where
  "pasteRange d cm w [] = w"
| "pasteRange d cm w (src # rest) =
     (let dst = Join d (Base src)
      in pasteRange d cm
           (if cm = ClipCopy then copyFile w src dst else ignoring w (Rename w src dst))
           rest)"

text \<open>A case of the switch either returns from \<open>Update\<close> at once, or falls out of
  the switch to the two statements at the end of \<open>Update\<close>.\<close>

datatype flow = Return model world cmd | Fallthrough model world

definition refreshed :: "world \<Rightarrow> model \<Rightarrow> panic + flow" where
  "refreshed w m = andThen (refreshBrowse w m) (\<lambda>m'. Inr (Fallthrough m' w))"

definition selectedFile :: "model \<Rightarrow> (fileItem \<Rightarrow> panic + flow) \<Rightarrow> panic + flow" where
  "selectedFile m f =
     (case SelectedItem (browse m) of None \<Rightarrow> Inl NilInterfaceConversion | Some item \<Rightarrow> f item)"

definition browseKey :: "env \<Rightarrow> world \<Rightarrow> string \<Rightarrow> model \<Rightarrow> panic + flow" where
  "browseKey E w k m =
     (if Matches k (Quit newKeyMap) then Inr (Return m w tea_Quit)
      else if Matches k (ToggleHidden newKeyMap) then
        refreshed w (m\<lparr>showHidden := \<not> showHidden m\<rparr>)
      else if Matches k (Enter newKeyMap) then
        selectedFile m (\<lambda>item.
          if isDir item then refreshed w (m\<lparr>cwd := path item\<rparr>)
          else Inr (Return m w (tea_ExecProcess (editor m) (path item))))
      else if Matches k (Mark newKeyMap) then
        selectedFile m (\<lambda>item.
          if \<not> isParent item then
            refreshed w
              (m\<lparr>marked := AList.update (path item) (\<not> isMarked (marked m) (path item))
                                (marked m)\<rparr>)
          else Inr (Fallthrough m w))
      else if Matches k (Yank newKeyMap) then
        refreshed w (m\<lparr>clipboard := keys (marked m), clipMode := ClipCopy, marked := []\<rparr>)
      else if Matches k (Cut newKeyMap) then
        refreshed w (m\<lparr>clipboard := keys (marked m), clipMode := ClipCut, marked := []\<rparr>)
      else if Matches k (Paste newKeyMap) then
        refreshed (pasteRange (cwd m) (clipMode m) w (clipboard m))
          (m\<lparr>clipboard := [], clipMode := ClipNone\<rparr>)
      else if Matches k (New newKeyMap) then
        Inr (Fallthrough (m\<lparr>mode := ModeInput, input := [], inputTarget := ''create''\<rparr>) w)
      else if Matches k (Rename_key newKeyMap) then
        selectedFile m (\<lambda>item.
          if \<not> isParent item then
            Inr (Fallthrough
                   (m\<lparr>mode := ModeInput, input := name item, inputTarget := ''rename''\<rparr>) w)
          else Inr (Fallthrough m w))
      else if Matches k (Delete newKeyMap) then
        selectedFile m (\<lambda>item.
          if \<not> isParent item then
            refreshed (RemoveAll w (path item))
              (m\<lparr>marked := AList.delete (path item) (marked m)\<rparr>)
          else Inr (Fallthrough m w))
      else if Matches k (View newKeyMap) then
        selectedFile m (\<lambda>item.
          if \<not> isParent item \<and> \<not> isDir item then
            (let data = (case ReadFile w (path item) of Inl e \<Rightarrow> [] | Inr b \<Rightarrow> b)
             in Inr (Fallthrough (m\<lparr>view := data, mode := ModeView\<rparr>) w))
          else Inr (Fallthrough m w))
      else if Matches k (Mount newKeyMap) then
        Inr (Fallthrough ((refreshMounts E w m)\<lparr>mode := ModeMounts\<rparr>) w)
      else Inr (Fallthrough m w))"

definition mountsKey :: "env \<Rightarrow> world \<Rightarrow> string \<Rightarrow> model \<Rightarrow> panic + flow" where
  "mountsKey E w k m =
     (if Matches k (Back newKeyMap) then Inr (Fallthrough (m\<lparr>mode := ModeBrowse\<rparr>) w)
      else if Matches k (Enter newKeyMap) then
        (case SelectedItem (mounts m) of
           None \<Rightarrow> Inl NilInterfaceConversion
         | Some item \<Rightarrow>
             if mount item = [] then
               (let w' = udisksctl E ''mount'' (dev item) w
                in Inr (Fallthrough (refreshMounts E w' m) w'))
             else
               andThen (refreshBrowse w (m\<lparr>cwd := mount item\<rparr>))
                 (\<lambda>m'. Inr (Fallthrough (m'\<lparr>mode := ModeBrowse\<rparr>) w)))
      else Inr (Fallthrough m w))"

definition inputKey :: "env \<Rightarrow> world \<Rightarrow> string \<Rightarrow> model \<Rightarrow> panic + flow" where
  "inputKey E w k m =
     andThen
       (if Matches k (Back newKeyMap) then Inr (m\<lparr>mode := ModeBrowse\<rparr>, w)
        else if Matches k [''enter''] then handleInput w m
        else Inr (m, w))
       (\<lambda>(m', w'). Inr (Return (m'\<lparr>input := inputUpdate E (KeyMsg k) (input m')\<rparr>) w' WidgetCmd))"

definition viewKey :: "env \<Rightarrow> world \<Rightarrow> string \<Rightarrow> model \<Rightarrow> panic + flow" where
  "viewKey E w k m =
     (let m1 = (if Matches k (Back newKeyMap) \<or> Matches k (Quit newKeyMap)
                then m\<lparr>mode := ModeBrowse\<rparr> else m)
      in Inr (Return (m1\<lparr>view := viewUpdate E (KeyMsg k) (view m1)\<rparr>) w WidgetCmd))"

text \<open>The end of \<open>Update\<close>: the message goes on to the list that is on screen. The
  sizes a \<open>WindowSizeMsg\<close> sets belong to the widgets and are not modelled.\<close>

definition forward :: "env \<Rightarrow> msg \<Rightarrow> flow \<Rightarrow> model \<times> world \<times> cmd" where
  "forward E ms f =
     (case f of
        Return m w c \<Rightarrow> (m, w, c)
      | Fallthrough m w \<Rightarrow>
          (let (m1, c1) = (if mode m = ModeBrowse
                           then (m\<lparr>browse := browseUpdate E ms (browse m)\<rparr>, WidgetCmd)
                           else (m, NoCmd));
               (m2, c2) = (if mode m1 = ModeMounts
                           then (m1\<lparr>mounts := mountsUpdate E ms (mounts m1)\<rparr>, WidgetCmd)
                           else (m1, c1))
           in (m2, w, c2)))"

definition Update :: "env \<Rightarrow> world \<Rightarrow> msg \<Rightarrow> model \<Rightarrow> panic + (model \<times> world \<times> cmd)" where
  "Update E w ms m =
     andThen
       (case ms of
          KeyMsg k \<Rightarrow>
            (case mode m of
               ModeBrowse \<Rightarrow> browseKey E w k m
             | ModeMounts \<Rightarrow> mountsKey E w k m
             | ModeInput \<Rightarrow> inputKey E w k m
             | ModeView \<Rightarrow> viewKey E w k m)
        | WindowSizeMsg width height \<Rightarrow> Inr (Fallthrough m w)
        | OtherMsg \<Rightarrow> Inr (Fallthrough m w))
       (\<lambda>f. Inr (forward E ms f))"

subsection \<open>initialModel\<close>

definition initialModel :: "world \<Rightarrow> panic + model" where
  "initialModel w =
     refreshBrowse w
       \<lparr>mode = ModeBrowse, cwd = Getwd w, showHidden = False,
        browse = \<lparr>items = [], cursor = 0, title = ''bobafm''\<rparr>,
        mounts = \<lparr>items = [], cursor = 0, title = ''List''\<rparr>,
        input = [], view = [], marked = [], clipboard = [], clipMode = ClipNone,
        editor = (if EDITOR w = [] then ''vi'' else EDITOR w), inputTarget = []\<rparr>"

subsection \<open>A small world for examples\<close>

text \<open>The directory \<open>/home\<close> holds \<open>a.txt\<close>, \<open>b.txt\<close>, the subdirectory \<open>d\<close> and the
  hidden file \<open>.cfg\<close>; the program is started there.\<close>

definition homeWorld :: world where
  "homeWorld =
     \<lparr>files = [([''home''], Directory), ([''home'', ''b.txt''], RegularFile ''bbb''),
               ([''home'', ''a.txt''], RegularFile ''aaa''), ([''home'', ''d''], Directory),
               ([''home'', ''.cfg''], RegularFile ''c'')],
      wd = [''home''], EDITOR = []\<rparr>"

definition homeEntries :: "DirEntry list" where
  "homeEntries =
     [\<lparr>Name = ''.cfg'', IsDir = False\<rparr>, \<lparr>Name = ''a.txt'', IsDir = False\<rparr>,
      \<lparr>Name = ''b.txt'', IsDir = False\<rparr>, \<lparr>Name = ''d'', IsDir = True\<rparr>]"

definition homeModel :: model where
  "homeModel =
     \<lparr>mode = ModeBrowse, cwd = ''/home'', showHidden = False,
      browse = \<lparr>items = [], cursor = 0, title = ''bobafm''\<rparr>,
      mounts = \<lparr>items = [], cursor = 0, title = ''List''\<rparr>,
      input = [], view = [], marked = [], clipboard = [], clipMode = ClipNone,
      editor = ''vi'', inputTarget = []\<rparr>"

subsection \<open>Running the program\<close>

text \<open>A list widget that moves its cursor on the keys for up and down, a text input
  that appends a typed character, and no block devices: an environment to run examples
  in. \<open>Updates\<close> feeds a sequence of messages to \<open>Update\<close>, as the event loop does.\<close>

definition plainEnv :: env where
  "plainEnv =
     \<lparr>browseUpdate = (\<lambda>ms l. case ms of
          KeyMsg k \<Rightarrow>
            (if k \<in> set (Down newKeyMap) \<and> Suc (cursor l) < length (items l)
             then l\<lparr>cursor := Suc (cursor l)\<rparr>
             else if k \<in> set (Up newKeyMap) then l\<lparr>cursor := cursor l - 1\<rparr>
             else l)
        | _ \<Rightarrow> l),
      mountsUpdate = (\<lambda>ms l. l),
      inputUpdate = (\<lambda>ms v. case ms of KeyMsg k \<Rightarrow> (if length k = 1 then v @ k else v) | _ \<Rightarrow> v),
      viewUpdate = (\<lambda>ms v. v),
      lsblk = (\<lambda>w. []),
      udisksctl = (\<lambda>verb d w. w)\<rparr>"

fun Updates :: "env \<Rightarrow> world \<Rightarrow> msg list \<Rightarrow> model \<Rightarrow> panic + (model \<times> world)" where
  "Updates E w [] m = Inr (m, w)"
| "Updates E w (ms # rest) m =
     andThen (Update E w ms m) (\<lambda>(m', w', c). Updates E w' rest m')"

text \<open>The catalog of \<open>/home\<close>, and the program browsing it with the cursor on the
  \<open>i\<close>-th entry.\<close>

definition homeCatalog :: "fileItem list" where
  "homeCatalog =
     [\<lparr>name = ''..'', path = ''/'', isDir = True, isParent = True\<rparr>,
      \<lparr>name = ''d'', path = ''/home/d'', isDir = True, isParent = False\<rparr>,
      \<lparr>name = ''a.txt'', path = ''/home/a.txt'', isDir = False, isParent = False\<rparr>,
      \<lparr>name = ''b.txt'', path = ''/home/b.txt'', isDir = False, isParent = False\<rparr>]"

definition homeBrowsing :: "nat \<Rightarrow> model" where
  "homeBrowsing i =
     homeModel\<lparr>browse := \<lparr>items = homeCatalog, cursor = i,
                            title = ''bobafm '' @ emDash @ '' /home''\<rparr>\<rparr>"

text \<open>The number of bytes of a white-space encoding, read off its first byte.\<close>

definition encodingLength :: "char \<Rightarrow> nat" where
  "encodingLength c =
     (if c = CHR 0xC2 then 2 else if c \<in> {CHR 0xE1, CHR 0xE2, CHR 0xE3} then 3 else 1)"

subsection \<open>Parts of refreshBrowse and handleInput by name\<close>

text \<open>The initial value of the slice \<open>dirs\<close>, the title of the list, and the switch
  over \<open>inputTarget\<close>, as they stand in \<open>refreshBrowse\<close> and \<open>handleInput\<close>.\<close>

definition parentLink :: "string \<Rightarrow> fileItem list" where
  "parentLink d =
     (if Dir d \<noteq> d then [\<lparr>name = ''..'', path = Dir d, isDir = True, isParent = True\<rparr>] else [])"

definition browseTitle :: "string \<Rightarrow> bool \<Rightarrow> string" where
  "browseTitle d sh =
     (if sh then (''bobafm '' @ emDash @ '' '' @ d) @ '' (hidden)''
      else ''bobafm '' @ emDash @ '' '' @ d)"

definition commitInput :: "world \<Rightarrow> model \<Rightarrow> string \<Rightarrow> panic + world" where
  "commitInput w m inp =
     (if inputTarget m = ''create'' then
        (let full = Join (cwd m) inp;
             isDirectory = HasSuffix inp ''/'';
             parent = Dir full;
             w1 = ignoring w (MkdirAll w parent)
         in if isDirectory then Inr (ignoring w1 (MkdirAll w1 full))
            else Inr (ignoring w1 (OpenFile_CREATE_EXCL w1 full)))
      else if inputTarget m = ''rename'' then
        (case SelectedItem (browse m) of
           None \<Rightarrow> Inl NilInterfaceConversion
         | Some item \<Rightarrow>
             (let dst = Join (cwd m) inp
              in Inr (ignoring w (Rename w (path item) dst))))
      else Inr w)"

text \<open>The program in Input mode, entered from \<open>/home\<close>, with a target and a buffer.\<close>

definition homeInput :: "string \<Rightarrow> string \<Rightarrow> model" where
  "homeInput target buffer =
     (homeBrowsing 2)\<lparr>mode := ModeInput, input := buffer, inputTarget := target\<rparr>"

text \<open>Names that start with a dot, the entries that stay in the catalog when hidden
  files are not shown, and the names of a catalog (none after a panic).\<close>

definition dotPrefixed :: "string \<Rightarrow> bool" where
  "dotPrefixed n \<longleftrightarrow> n \<noteq> [] \<and> hd n = CHR ''.''"

definition keptWhenHidden :: "fileItem \<Rightarrow> bool" where
  "keptWhenHidden i \<longleftrightarrow> isParent i \<or> \<not> dotPrefixed (name i)"

definition catalogNames :: "panic + model \<Rightarrow> string list" where
  "catalogNames r = (case r of Inl p \<Rightarrow> [] | Inr m \<Rightarrow> map name (items (browse m)))"

text \<open>The elements of a cleaned absolute path.\<close>

definition elements :: "string \<Rightarrow> string list" where
  "elements s = foldl (cleanStep True) [] (Split s (CHR ''/''))"

subsection \<open>File systems as they are found\<close>

text \<open>In a file system every path that exists lies in a directory. A path is free of
  files when neither it nor one of its ancestors is a regular file, so that it can be
  made a directory.\<close>

definition wellFormed :: "world \<Rightarrow> bool" where
  "wellFormed w \<longleftrightarrow> (\<forall>p. stat w p \<noteq> None \<longrightarrow> stat w (butlast p) = Some Directory)"

definition noFileOnPath :: "world \<Rightarrow> fpath \<Rightarrow> bool" where
  "noFileOnPath w p \<longleftrightarrow> (\<forall>k\<le>length p. \<forall>b. stat w (take k p) \<noteq> Some (RegularFile b))"

subsection \<open>What is at a path, and where a pasted entry goes\<close>

text \<open>\<open>nodeAt\<close> is what a path string names in the file system; \<open>destination\<close> is
  the path the paste loop computes for a source, and \<open>pasteOne\<close> is one round of that
  loop. A path lies below another when the other names it or one of its ancestors.\<close>

definition nodeAt :: "world \<Rightarrow> string \<Rightarrow> node option" where
  "nodeAt w s = (case resolve w s of None \<Rightarrow> None | Some p \<Rightarrow> stat w p)"







section \<open>Properties\<close>

subsection \<open>Cleaned absolute paths\<close>

lemma Split_not_Nil: "Split s c \<noteq> []"
  by (induction s) (auto split: list.splits)

lemma Split_no_sep: "x \<in> set (Split s c) \<Longrightarrow> c \<notin> set x"
  by (induction s arbitrary: x) (auto split: if_splits list.splits)

lemma Split_sep_free: "c \<notin> set x \<Longrightarrow> Split x c = [x]"
  by (induction x) auto

lemma Split_append_sep: "c \<notin> set x \<Longrightarrow> Split (x @ c # s) c = x # Split s c"
  by (induction x) auto

lemma Split_snoc_sep: "Split (s @ [c]) c = Split s c @ [[]]"
  by (induction s) (auto split: list.splits simp: Split_not_Nil)

lemma Join_strings_snoc:
  "Join_strings (ys @ [x]) sep = (if ys = [] then x else Join_strings ys sep @ sep @ x)"
  by (induction ys sep rule: Join_strings.induct) auto

lemma Split_Join_strings:
  "\<forall>x\<in>set xs. c \<notin> set x \<Longrightarrow> xs \<noteq> [] \<Longrightarrow> Split (Join_strings xs [c]) c = xs"
  by (induction xs "[c]" rule: Join_strings.induct) (auto simp: Split_sep_free Split_append_sep)

lemma cleanStep_valid: "validName e \<Longrightarrow> cleanStep r out e = out @ [e]"
  by (auto simp: cleanStep_def validName_def)

lemma foldl_cleanStep_valid:
  "\<forall>x\<in>set xs. validName x \<Longrightarrow> foldl (cleanStep r) out xs = out @ xs"
  by (induction xs arbitrary: out) (auto simp: cleanStep_valid)

lemma walkStep_valid: "validName e \<Longrightarrow> walkStep p e = p @ [e]"
  by (auto simp: walkStep_def validName_def)

lemma foldl_walkStep_valid:
  "\<forall>x\<in>set xs. validName x \<Longrightarrow> foldl walkStep p xs = p @ xs"
  by (induction xs arbitrary: p) (auto simp: walkStep_valid)

lemma cleanStep_keeps_valid:
  "\<forall>x\<in>set out. validName x \<Longrightarrow> CHR ''/'' \<notin> set e \<Longrightarrow>
   \<forall>x\<in>set (cleanStep True out e). validName x"
  by (auto simp: cleanStep_def validName_def dest: in_set_butlastD)

lemma foldl_cleanStep_keeps_valid:
  "\<forall>x\<in>set out. validName x \<Longrightarrow> \<forall>e\<in>set es. CHR ''/'' \<notin> set e \<Longrightarrow>
   \<forall>x\<in>set (foldl (cleanStep True) out es). validName x"
proof (induction es arbitrary: out)
  case Nil
  then show ?case by simp
next
  case (Cons e es)
  from Cons.prems have "\<forall>x\<in>set (cleanStep True out e). validName x"
    by (intro cleanStep_keeps_valid) simp_all
  with Cons show ?case by simp
qed

lemma elements_valid: "\<forall>x\<in>set (elements s). validName x"
  unfolding elements_def
  by (rule foldl_cleanStep_keeps_valid) (auto dest: Split_no_sep)

lemma Clean_rooted:
  "s \<noteq> [] \<Longrightarrow> hd s = CHR ''/'' \<Longrightarrow> Clean s = ''/'' @ Join_strings (elements s) ''/''"
  by (simp add: Clean_def elements_def Let_def)

lemma Join_rooted:
  "a \<noteq> [] \<Longrightarrow> hd a = CHR ''/'' \<Longrightarrow>
   Join a b = ''/'' @ Join_strings (elements (a @ ''/'' @ b)) ''/''"
  by (simp add: Join_def Clean_rooted)

lemma elements_rooted:
  "\<forall>x\<in>set xs. validName x \<Longrightarrow> elements (''/'' @ Join_strings xs ''/'') = xs"
proof (cases "xs = []")
  case True
  then show ?thesis by (simp add: elements_def cleanStep_def)
next
  case False
  assume v: "\<forall>x\<in>set xs. validName x"
  then have "\<forall>x\<in>set xs. CHR ''/'' \<notin> set x" by (simp add: validName_def)
  with False have "Split (Join_strings xs ''/'') (CHR ''/'') = xs"
    using Split_Join_strings [of xs "CHR ''/''"] by simp
  with v show ?thesis
    by (simp add: elements_def cleanStep_def foldl_cleanStep_valid)
qed

lemma resolve_rooted:
  assumes "\<forall>x\<in>set xs. validName x"
  shows "resolve w (''/'' @ Join_strings xs ''/'') = Some xs"
proof (cases "xs = []")
  case True
  then show ?thesis by (simp add: resolve_def walkStep_def)
next
  case False
  from assms have "\<forall>x\<in>set xs. CHR ''/'' \<notin> set x" by (simp add: validName_def)
  with False have "Split (Join_strings xs ''/'') (CHR ''/'') = xs"
    using Split_Join_strings [of xs "CHR ''/''"] by simp
  with assms show ?thesis
    by (simp add: resolve_def walkStep_def foldl_walkStep_valid)
qed

lemma upToLastSlash_append:
  "CHR ''/'' \<notin> set x \<Longrightarrow> upToLastSlash (p @ ''/'' @ x) = p @ ''/''"
proof -
  assume "CHR ''/'' \<notin> set x"
  then have "dropWhile (\<lambda>c. c \<noteq> CHR ''/'') (rev x @ CHR ''/'' # rev p) =
             dropWhile (\<lambda>c. c \<noteq> CHR ''/'') (CHR ''/'' # rev p)"
    by (intro dropWhile_append2) auto
  then show ?thesis by (simp add: upToLastSlash_def)
qed

lemma Dir_rooted:
  assumes "\<forall>x\<in>set xs. validName x"
  shows "Dir (''/'' @ Join_strings xs ''/'') = ''/'' @ Join_strings (butlast xs) ''/''"
proof (cases xs rule: rev_cases)
  case Nil
  then show ?thesis
    by (simp add: Dir_def upToLastSlash_def Clean_def cleanStep_def)
next
  case (snoc ys x)
  with assms have x: "CHR ''/'' \<notin> set x" and ys: "\<forall>y\<in>set ys. validName y"
    by (simp_all add: validName_def)
  show ?thesis
  proof (cases "ys = []")
    case True
    with x have "upToLastSlash (''/'' @ Join_strings xs ''/'') = ''/''"
      using upToLastSlash_append [of x "[]"] by (simp add: snoc)
    then show ?thesis
      by (simp add: Dir_def snoc True Clean_def cleanStep_def)
  next
    case False
    with x have "upToLastSlash (''/'' @ Join_strings xs ''/'') = (''/'' @ Join_strings ys ''/'') @ ''/''"
      using upToLastSlash_append [of x "''/'' @ Join_strings ys ''/''"]
      by (simp add: snoc Join_strings_snoc)
    moreover have "elements ((''/'' @ Join_strings ys ''/'') @ ''/'') = ys"
    proof -
      from ys have "\<forall>y\<in>set ys. CHR ''/'' \<notin> set y" by (simp add: validName_def)
      with False have "Split (Join_strings ys ''/'') (CHR ''/'') = ys"
        using Split_Join_strings [of ys "CHR ''/''"] by simp
      then have "Split ((''/'' @ Join_strings ys ''/'') @ ''/'') (CHR ''/'') = [] # ys @ [[]]"
        using Split_snoc_sep [of "Join_strings ys ''/''" "CHR ''/''"] by simp
      with ys show ?thesis
        by (simp add: elements_def cleanStep_def foldl_cleanStep_valid)
    qed
    ultimately show ?thesis
      by (simp add: Dir_def Clean_rooted snoc)
  qed
qed

lemma Dir_fixed_iff_root:
  assumes "s \<noteq> []" and "hd s = CHR ''/''" and "Clean s = s"
  shows "Dir s = s \<longleftrightarrow> s = ''/''"
proof
  assume "s = ''/''"
  then show "Dir s = s"
    by (simp add: Dir_def upToLastSlash_def Clean_def cleanStep_def)
next
  assume fixed: "Dir s = s"
  define xs where "xs = elements s"
  have v: "\<forall>x\<in>set xs. validName x"
    unfolding xs_def by (rule elements_valid)
  then have vb: "\<forall>x\<in>set (butlast xs). validName x"
    by (auto dest: in_set_butlastD)
  have s: "s = ''/'' @ Join_strings xs ''/''"
    using Clean_rooted [OF assms(1,2)] assms(3) by (simp add: xs_def)
  have "Dir s = ''/'' @ Join_strings (butlast xs) ''/''"
    by (subst s) (rule Dir_rooted [OF v])
  with fixed s have "''/'' @ Join_strings (butlast xs) ''/'' = ''/'' @ Join_strings xs ''/''"
    by simp
  then have "elements (''/'' @ Join_strings (butlast xs) ''/'') = elements (''/'' @ Join_strings xs ''/'')"
    by simp
  then have "butlast xs = xs"
    by (simp only: elements_rooted [OF v] elements_rooted [OF vb])
  then have "xs = []"
    by (cases xs rule: rev_cases) simp_all
  with s show "s = ''/''" by simp
qed

subsection \<open>The directory listing\<close>

lemma set_insertName: "set (insertName n xs) = insert n (set xs)"
  by (induction xs) auto

lemma set_sortNames: "set (sortNames ns) = set ns"
  unfolding sortNames_def by (induction ns) (auto simp: set_insertName)

lemma childNames_valid: "n \<in> set (childNames w p) \<Longrightarrow> validName n"
  unfolding childNames_def by auto

lemma ReadDir_names: "ReadDir w s = Inr es \<Longrightarrow> e \<in> set es \<Longrightarrow> validName (Name e)"
  using childNames_valid unfolding ReadDir_def
  by (auto split: option.splits node.splits simp: set_sortNames)

lemma ReadDir_names_nonempty: "ReadDir w s = Inr es \<Longrightarrow> e \<in> set es \<Longrightarrow> Name e \<noteq> []"
  using ReadDir_names [of w s es e] by (simp add: validName_def)

lemma ReadDir_homeWorld: "ReadDir homeWorld ''/home'' = Inr homeEntries"
  by code_simp

subsection \<open>The catalog\<close>

lemma rangeEntries_shape:
  "\<forall>e\<in>set es. sh \<or> Name e \<noteq> [] \<Longrightarrow>
   rangeEntries sh d es dirs fls =
     Inr (dirs @ map (\<lambda>e. \<lparr>name = Name e, path = Join d (Name e), isDir = True, isParent = False\<rparr>)
                   (filter IsDir (filter (\<lambda>e. sh \<or> hd (Name e) \<noteq> CHR ''.'') es)),
          fls @ map (\<lambda>e. \<lparr>name = Name e, path = Join d (Name e), isDir = False, isParent = False\<rparr>)
                   (filter (\<lambda>e. \<not> IsDir e) (filter (\<lambda>e. sh \<or> hd (Name e) \<noteq> CHR ''.'') es)))"
  by (induction es arbitrary: dirs fls) (auto simp: Let_def)

text \<open>
  C6. When the directory can be read, the catalog a refresh produces is: the parent
  link, pointing at \<open>Dir cwd\<close>, exactly when \<open>Dir cwd\<close> differs from \<open>cwd\<close>; then the
  directories among the entries shown, in the order of the listing; then the entries
  shown that are not directories, in the order of the listing. The entries shown are
  all of them when hidden files are shown, and otherwise those whose name does not
  start with a dot. For a cleaned absolute path, \<open>Dir cwd\<close> is \<open>cwd\<close> at the root of
  the file system and nowhere else.
\<close>

theorem refreshBrowse_catalog:
  assumes "ReadDir w (cwd m) = Inr es"
  shows "(\<exists>m'. refreshBrowse w m = Inr m' \<and>
           items (browse m') =
             (if Dir (cwd m) = cwd m then []
              else [\<lparr>name = ''..'', path = Dir (cwd m), isDir = True, isParent = True\<rparr>]) @
             map (\<lambda>e. \<lparr>name = Name e, path = Join (cwd m) (Name e), isDir = True, isParent = False\<rparr>)
               (filter IsDir (filter (\<lambda>e. showHidden m \<or> hd (Name e) \<noteq> CHR ''.'') es)) @
             map (\<lambda>e. \<lparr>name = Name e, path = Join (cwd m) (Name e), isDir = False, isParent = False\<rparr>)
               (filter (\<lambda>e. \<not> IsDir e) (filter (\<lambda>e. showHidden m \<or> hd (Name e) \<noteq> CHR ''.'') es))) \<and>
         (cwd m \<noteq> [] \<and> hd (cwd m) = CHR ''/'' \<and> Clean (cwd m) = cwd m \<longrightarrow>
            (Dir (cwd m) = cwd m \<longleftrightarrow> cwd m = ''/''))"
proof
  have ne: "\<forall>e\<in>set es. showHidden m \<or> Name e \<noteq> []"
    using ReadDir_names_nonempty [OF assms] by blast
  show "\<exists>m'. refreshBrowse w m = Inr m' \<and>
           items (browse m') =
             (if Dir (cwd m) = cwd m then []
              else [\<lparr>name = ''..'', path = Dir (cwd m), isDir = True, isParent = True\<rparr>]) @
             map (\<lambda>e. \<lparr>name = Name e, path = Join (cwd m) (Name e), isDir = True, isParent = False\<rparr>)
               (filter IsDir (filter (\<lambda>e. showHidden m \<or> hd (Name e) \<noteq> CHR ''.'') es)) @
             map (\<lambda>e. \<lparr>name = Name e, path = Join (cwd m) (Name e), isDir = False, isParent = False\<rparr>)
               (filter (\<lambda>e. \<not> IsDir e) (filter (\<lambda>e. showHidden m \<or> hd (Name e) \<noteq> CHR ''.'') es))"
    unfolding refreshBrowse_def
    by (simp add: assms Let_def andThen_def SetItems_def rangeEntries_shape [OF ne])
  show "cwd m \<noteq> [] \<and> hd (cwd m) = CHR ''/'' \<and> Clean (cwd m) = cwd m \<longrightarrow>
          (Dir (cwd m) = cwd m \<longleftrightarrow> cwd m = ''/'')"
    using Dir_fixed_iff_root [of "cwd m"] by blast
qed

theorem refreshBrowse_catalog_witness:
  "ReadDir homeWorld (cwd homeModel) = Inr homeEntries \<and>
   (\<exists>m'. refreshBrowse homeWorld homeModel = Inr m' \<and>
      map name (items (browse m')) = [''..'', ''d'', ''a.txt'', ''b.txt''] \<and>
      map isDir (items (browse m')) = [True, True, False, False]) \<and>
   cwd homeModel \<noteq> [] \<and> hd (cwd homeModel) = CHR ''/'' \<and> Clean (cwd homeModel) = cwd homeModel \<and>
   Dir (cwd homeModel) \<noteq> cwd homeModel \<and> cwd homeModel \<noteq> ''/''"
proof -
  have c: "cwd homeModel \<noteq> [] \<and> hd (cwd homeModel) = CHR ''/'' \<and>
           Clean (cwd homeModel) = cwd homeModel \<and> cwd homeModel \<noteq> ''/''"
    by (simp add: homeModel_def Clean_def cleanStep_def)
  have r: "ReadDir homeWorld (cwd homeModel) = Inr homeEntries"
    using ReadDir_homeWorld by (simp add: homeModel_def)
  have d: "Dir (cwd homeModel) \<noteq> cwd homeModel"
    by (simp add: homeModel_def Dir_def upToLastSlash_def Clean_def cleanStep_def)
  from refreshBrowse_catalog [OF r, THEN conjunct1] obtain m' where
    "refreshBrowse homeWorld homeModel = Inr m'"
    "items (browse m') =
       (if Dir (cwd homeModel) = cwd homeModel then []
        else [\<lparr>name = ''..'', path = Dir (cwd homeModel), isDir = True, isParent = True\<rparr>]) @
       map (\<lambda>e. \<lparr>name = Name e, path = Join (cwd homeModel) (Name e), isDir = True, isParent = False\<rparr>)
         (filter IsDir (filter (\<lambda>e. showHidden homeModel \<or> hd (Name e) \<noteq> CHR ''.'') homeEntries)) @
       map (\<lambda>e. \<lparr>name = Name e, path = Join (cwd homeModel) (Name e), isDir = False, isParent = False\<rparr>)
         (filter (\<lambda>e. \<not> IsDir e) (filter (\<lambda>e. showHidden homeModel \<or> hd (Name e) \<noteq> CHR ''.'') homeEntries))"
    by blast
  then have "\<exists>m'. refreshBrowse homeWorld homeModel = Inr m' \<and>
      map name (items (browse m')) = [''..'', ''d'', ''a.txt'', ''b.txt''] \<and>
      map isDir (items (browse m')) = [True, True, False, False]"
    using d by (simp add: homeEntries_def homeModel_def)
  with r c refreshBrowse_catalog [OF r, THEN conjunct2] show ?thesis
    by blast
qed

text \<open>
  When reading the current directory fails, a refresh returns normally and leaves the
  model, and with it the catalog on screen, as it was; at the start of the program,
  where nothing is on screen yet, the catalog stays empty.
\<close>

lemma refreshBrowse_ReadDir_error:
  "(ReadDir w (cwd m) = Inl e \<longrightarrow> refreshBrowse w m = Inr m) \<and>
   (ReadDir w (Getwd w) = Inl e \<longrightarrow>
      (\<exists>m0. initialModel w = Inr m0 \<and> items (browse m0) = []))"
  unfolding refreshBrowse_def initialModel_def by simp

text \<open>
  On an empty catalog nothing is selected, and the cases of \<open>Update\<close> for enter, mark,
  rename, delete and view assert the selected item to be a \<open>fileItem\<close> without a check
  (main.go:240, 243, 252, 255, 258): the assertion on the nil interface panics.
\<close>

lemma Update_empty_catalog:
  assumes "mode m = ModeBrowse" and "items (browse m) = []"
    and "k \<in> {''enter'', '' '', ''r'', ''d'', ''v''}"
  shows "Update E w (KeyMsg k) m = Inl NilInterfaceConversion"
  using assms
  by (auto simp: Update_def browseKey_def selectedFile_def SelectedItem_def Matches_def
      newKeyMap_def andThen_def)

text \<open>So whenever the read of the directory fails at the start of the program, the
  program starts, and panics on the first of these keys.\<close>

lemma startup_ReadDir_error_panics:
  assumes "ReadDir w (Getwd w) = Inl e" and "k \<in> {''enter'', '' '', ''r'', ''d'', ''v''}"
  shows "\<exists>m0. initialModel w = Inr m0 \<and> items (browse m0) = [] \<and>
              Update E w (KeyMsg k) m0 = Inl NilInterfaceConversion"
proof -
  from assms(1) obtain m0 where m0: "initialModel w = Inr m0" and "m0 = 
       \<lparr>mode = ModeBrowse, cwd = Getwd w, showHidden = False,
        browse = \<lparr>items = [], cursor = 0, title = ''bobafm''\<rparr>,
        mounts = \<lparr>items = [], cursor = 0, title = ''List''\<rparr>,
        input = [], view = [], marked = [], clipboard = [], clipMode = ClipNone,
        editor = (if EDITOR w = [] then ''vi'' else EDITOR w), inputTarget = []\<rparr>"
    by (simp add: initialModel_def refreshBrowse_def)
  then have "mode m0 = ModeBrowse" and "items (browse m0) = []" by simp_all
  with m0 Update_empty_catalog [OF this assms(2)] show ?thesis by blast
qed

text \<open>
  C9. The program is started in a directory that cannot be read (here \<open>/gone\<close>, which
  does not exist). The read of the directory fails, \<open>refreshBrowse\<close> returns early, and
  the program starts with an empty catalog. The next key event that needs the selected
  entry (enter, mark, rename, delete or view) then panics: the process does terminate
  because of the failed read.
\<close>

theorem ReadDir_error_then_panic:
  "ReadDir (homeWorld\<lparr>wd := [''gone'']\<rparr>) (Getwd (homeWorld\<lparr>wd := [''gone'']\<rparr>)) = Inl ENOENT \<and>
   initialModel (homeWorld\<lparr>wd := [''gone'']\<rparr>) = Inr (homeModel\<lparr>cwd := ''/gone''\<rparr>) \<and>
   items (browse (homeModel\<lparr>cwd := ''/gone''\<rparr>)) = [] \<and>
   Update plainEnv (homeWorld\<lparr>wd := [''gone'']\<rparr>) (KeyMsg ''enter'') (homeModel\<lparr>cwd := ''/gone''\<rparr>) =
     Inl NilInterfaceConversion \<and>
   Update plainEnv (homeWorld\<lparr>wd := [''gone'']\<rparr>) (KeyMsg '' '') (homeModel\<lparr>cwd := ''/gone''\<rparr>) =
     Inl NilInterfaceConversion \<and>
   Update plainEnv (homeWorld\<lparr>wd := [''gone'']\<rparr>) (KeyMsg ''r'') (homeModel\<lparr>cwd := ''/gone''\<rparr>) =
     Inl NilInterfaceConversion \<and>
   Update plainEnv (homeWorld\<lparr>wd := [''gone'']\<rparr>) (KeyMsg ''d'') (homeModel\<lparr>cwd := ''/gone''\<rparr>) =
     Inl NilInterfaceConversion \<and>
   Update plainEnv (homeWorld\<lparr>wd := [''gone'']\<rparr>) (KeyMsg ''v'') (homeModel\<lparr>cwd := ''/gone''\<rparr>) =
     Inl NilInterfaceConversion"
  by code_simp

subsection \<open>Refreshing never panics\<close>

lemma rangeEntries_returns:
  "\<forall>e\<in>set es. sh \<or> Name e \<noteq> [] \<Longrightarrow> \<exists>r. rangeEntries sh d es dirs fls = Inr r"
  by (simp add: rangeEntries_shape)

lemma refreshBrowse_returns: "\<exists>b. refreshBrowse w m = Inr (m\<lparr>browse := b\<rparr>)"
proof (cases "ReadDir w (cwd m)")
  case (Inl e)
  then have "refreshBrowse w m = Inr (m\<lparr>browse := browse m\<rparr>)"
    by (simp add: refreshBrowse_def)
  then show ?thesis by blast
next
  case (Inr es)
  have ne: "\<forall>e\<in>set es. showHidden m \<or> Name e \<noteq> []"
    using ReadDir_names_nonempty [OF Inr] by blast
  define dirs0 where
    "dirs0 = (if Dir (cwd m) \<noteq> cwd m
              then [\<lparr>name = ''..'', path = Dir (cwd m), isDir = True, isParent = True\<rparr>]
              else [])"
  obtain r where r: "rangeEntries (showHidden m) (cwd m) es dirs0 [] = Inr r"
    using rangeEntries_returns [OF ne] by blast
  obtain b where "refreshBrowse w m = Inr (m\<lparr>browse := b\<rparr>)"
    unfolding refreshBrowse_def Let_def
    by (cases r) (simp add: Inr andThen_def r [unfolded dirs0_def])
  then show ?thesis by blast
qed

lemma refreshed_returns: "\<exists>b. refreshed w m = Inr (Fallthrough (m\<lparr>browse := b\<rparr>) w)"
  using refreshBrowse_returns [of w m] unfolding refreshed_def andThen_def by auto

subsection \<open>Key events in Browse mode\<close>

lemma browseKey_paste:
  "browseKey E w ''p'' m =
     refreshed (pasteRange (cwd m) (clipMode m) w (clipboard m)) (m\<lparr>clipboard := [], clipMode := ClipNone\<rparr>)"
  by (simp add: browseKey_def Matches_def newKeyMap_def)

lemma browseKey_yank:
  "browseKey E w ''y'' m =
     refreshed w (m\<lparr>clipboard := keys (marked m), clipMode := ClipCopy, marked := []\<rparr>)"
  by (simp add: browseKey_def Matches_def newKeyMap_def)

lemma browseKey_cut:
  "browseKey E w ''x'' m =
     refreshed w (m\<lparr>clipboard := keys (marked m), clipMode := ClipCut, marked := []\<rparr>)"
  by (simp add: browseKey_def Matches_def newKeyMap_def)

lemma browseKey_mark:
  "browseKey E w '' '' m =
     selectedFile m (\<lambda>item.
          if \<not> isParent item then
            refreshed w
              (m\<lparr>marked := AList.update (path item) (\<not> isMarked (marked m) (path item))
                                (marked m)\<rparr>)
          else Inr (Fallthrough m w))"
  by (simp add: browseKey_def Matches_def newKeyMap_def)

lemma Update_browse_key:
  "mode m = ModeBrowse \<Longrightarrow>
   Update E w (KeyMsg k) m = andThen (browseKey E w k m) (\<lambda>f. Inr (forward E (KeyMsg k) f))"
  by (simp add: Update_def)

text \<open>
  C5. A paste event in Browse mode always returns, and afterwards the clipboard is
  empty and its mode is \<open>ClipNone\<close>, whatever the copies and moves of the loop did to
  the file system.
\<close>

theorem paste_clears_clipboard:
  assumes "mode m = ModeBrowse"
  shows "\<exists>m' c. Update E w (KeyMsg ''p'') m =
                  Inr (m', pasteRange (cwd m) (clipMode m) w (clipboard m), c) \<and>
                clipboard m' = [] \<and> clipMode m' = ClipNone"
proof -
  obtain b where
    "browseKey E w ''p'' m =
       Inr (Fallthrough (m\<lparr>clipboard := [], clipMode := ClipNone, browse := b\<rparr>)
              (pasteRange (cwd m) (clipMode m) w (clipboard m)))"
    using refreshed_returns
      [of "pasteRange (cwd m) (clipMode m) w (clipboard m)" "m\<lparr>clipboard := [], clipMode := ClipNone\<rparr>"]
    by (auto simp: browseKey_paste)
  then show ?thesis
    by (simp add: Update_browse_key [OF assms] andThen_def forward_def assms)
qed


theorem paste_clears_clipboard_witness:
  "mode (homeModel\<lparr>clipboard := [''/home/a.txt'', ''/nowhere''], clipMode := ClipCut, cwd := ''/home/d''\<rparr>) = ModeBrowse \<and>
   (\<exists>m' c. Update plainEnv homeWorld (KeyMsg ''p'')
              (homeModel\<lparr>clipboard := [''/home/a.txt'', ''/nowhere''], clipMode := ClipCut, cwd := ''/home/d''\<rparr>) =
            Inr (m', pasteRange ''/home/d'' ClipCut homeWorld [''/home/a.txt'', ''/nowhere''], c) \<and>
            clipboard m' = [] \<and> clipMode m' = ClipNone)"
  using paste_clears_clipboard
    [of "homeModel\<lparr>clipboard := [''/home/a.txt'', ''/nowhere''], clipMode := ClipCut, cwd := ''/home/d''\<rparr>"
        plainEnv homeWorld]
  by (simp add: homeModel_def)

subsection \<open>Marking\<close>

lemma isMarked_update:
  "isMarked (AList.update p b mk) q = (if q = p then b else isMarked mk q)"
  by (simp add: isMarked_def update_conv')

lemma mark_step:
  assumes "mode m = ModeBrowse" and "SelectedItem (browse m) = Some item"
  shows "\<exists>b. Update E w (KeyMsg '' '') m =
           Inr (m\<lparr>marked := (if isParent item then marked m
                              else AList.update (path item) (\<not> isMarked (marked m) (path item)) (marked m)),
                  browse := b\<rparr>, w, WidgetCmd) \<and>
              (isParent item \<longrightarrow> b = browseUpdate E (KeyMsg '' '') (browse m))"
proof (cases "isParent item")
  case True
  then show ?thesis
    by (simp add: Update_browse_key [OF assms(1)] browseKey_mark selectedFile_def assms
        andThen_def forward_def)
next
  case False
  obtain b where
    "refreshed w (m\<lparr>marked := AList.update (path item) (\<not> isMarked (marked m) (path item)) (marked m)\<rparr>) =
       Inr (Fallthrough
         (m\<lparr>marked := AList.update (path item) (\<not> isMarked (marked m) (path item)) (marked m),
            browse := b\<rparr>) w)"
    using refreshed_returns by blast
  then show ?thesis
    using False
    by (intro exI [of _ "browseUpdate E (KeyMsg '' '') b"])
       (simp add: Update_browse_key [OF assms(1)] browseKey_mark selectedFile_def assms
          andThen_def forward_def)
qed

text \<open>
  C8. A path is in the selection when the map \<open>marked\<close> reads true at it. A mark event
  on an entry that is not the parent link flips the membership of that entry's path and
  of no other path; on the parent link it changes nothing but what the list widget does
  with the key. A second mark event on the same entry gives back the membership there
  was before the first.
\<close>

theorem mark_toggles_membership:
  assumes "mode m = ModeBrowse" and "SelectedItem (browse m) = Some item"
  shows "\<exists>m' c. Update E w (KeyMsg '' '') m = Inr (m', w, c) \<and>
           (\<forall>q. isMarked (marked m') q =
                  (if q = path item \<and> \<not> isParent item then \<not> isMarked (marked m) q
                   else isMarked (marked m) q)) \<and>
           (isParent item \<longrightarrow> m' = m\<lparr>browse := browseUpdate E (KeyMsg '' '') (browse m)\<rparr>) \<and>
           (\<forall>item'. SelectedItem (browse m') = Some item' \<and> path item' = path item \<and>
                     isParent item' = isParent item \<longrightarrow>
              (\<exists>m'' c'. Update E w (KeyMsg '' '') m' = Inr (m'', w, c') \<and>
                 (\<forall>q. isMarked (marked m'') q = isMarked (marked m) q)))"
proof -
  from mark_step [OF assms, of E w] obtain b where
    1: "Update E w (KeyMsg '' '') m =
          Inr (m\<lparr>marked := (if isParent item then marked m
                             else AList.update (path item) (\<not> isMarked (marked m) (path item)) (marked m)),
                 browse := b\<rparr>, w, WidgetCmd)"
    and 2: "isParent item \<longrightarrow> b = browseUpdate E (KeyMsg '' '') (browse m)"
    by blast
  define m' where
    "m' = m\<lparr>marked := (if isParent item then marked m
                        else AList.update (path item) (\<not> isMarked (marked m) (path item)) (marked m)),
            browse := b\<rparr>"
  have mk: "\<forall>q. isMarked (marked m') q =
              (if q = path item \<and> \<not> isParent item then \<not> isMarked (marked m) q
               else isMarked (marked m) q)"
    by (simp add: m'_def isMarked_update)
  have par: "isParent item \<longrightarrow> m' = m\<lparr>browse := browseUpdate E (KeyMsg '' '') (browse m)\<rparr>"
    using 2 by (simp add: m'_def)
  have mode': "mode m' = ModeBrowse"
    using assms(1) by (simp add: m'_def)
  have twice: "\<exists>m'' c'. Update E w (KeyMsg '' '') m' = Inr (m'', w, c') \<and>
                 (\<forall>q. isMarked (marked m'') q = isMarked (marked m) q)"
    if sel: "SelectedItem (browse m') = Some item'" and same: "path item' = path item"
      and par': "isParent item' = isParent item" for item'
  proof -
    from mark_step [OF mode' sel, of E w] obtain b' where
      "Update E w (KeyMsg '' '') m' =
          Inr (m'\<lparr>marked := (if isParent item' then marked m'
                             else AList.update (path item') (\<not> isMarked (marked m') (path item')) (marked m')),
                  browse := b'\<rparr>, w, WidgetCmd)"
      by blast
    moreover have "\<forall>q. isMarked (if isParent item' then marked m'
                             else AList.update (path item') (\<not> isMarked (marked m') (path item')) (marked m')) q
                        = isMarked (marked m) q"
      using mk same par' by (simp add: isMarked_update)
    ultimately show ?thesis by simp
  qed
  show ?thesis
    using 1 mk par twice unfolding m'_def [symmetric] by blast
qed

theorem mark_toggles_membership_witness:
  "mode (homeBrowsing 2) = ModeBrowse \<and>
   SelectedItem (browse (homeBrowsing 2)) = Some (homeCatalog ! 2) \<and>
   (\<exists>m' c. Update plainEnv homeWorld (KeyMsg '' '') (homeBrowsing 2) = Inr (m', homeWorld, c) \<and>
      (\<forall>q. isMarked (marked m') q =
             (if q = path (homeCatalog ! 2) \<and> \<not> isParent (homeCatalog ! 2)
              then \<not> isMarked (marked (homeBrowsing 2)) q
              else isMarked (marked (homeBrowsing 2)) q)) \<and>
      (isParent (homeCatalog ! 2) \<longrightarrow>
         m' = (homeBrowsing 2)\<lparr>browse := browseUpdate plainEnv (KeyMsg '' '') (browse (homeBrowsing 2))\<rparr>) \<and>
      (\<forall>item'. SelectedItem (browse m') = Some item' \<and> path item' = path (homeCatalog ! 2) \<and>
                isParent item' = isParent (homeCatalog ! 2) \<longrightarrow>
         (\<exists>m'' c'. Update plainEnv homeWorld (KeyMsg '' '') m' = Inr (m'', homeWorld, c') \<and>
            (\<forall>q. isMarked (marked m'') q = isMarked (marked (homeBrowsing 2)) q))))"
proof -
  have a: "mode (homeBrowsing 2) = ModeBrowse"
    by (simp add: homeBrowsing_def homeModel_def)
  have b: "SelectedItem (browse (homeBrowsing 2)) = Some (homeCatalog ! 2)"
    by (simp add: homeBrowsing_def homeCatalog_def SelectedItem_def)
  show ?thesis
    using a b mark_toggles_membership [OF a b, of plainEnv homeWorld] by simp
qed

subsection \<open>Yank and cut\<close>

lemma keys_covers_marked: "isMarked mk p \<Longrightarrow> p \<in> set (keys mk)"
  unfolding isMarked_def keys_def
  by (auto split: option.splits dest: map_of_SomeD intro: rev_image_eqI)

lemma yank_cut_snapshot:
  assumes "mode m = ModeBrowse"
  shows "\<exists>m' c. Update E w (KeyMsg ''y'') m = Inr (m', w, c) \<and>
           clipboard m' = keys (marked m) \<and> clipMode m' = ClipCopy \<and> marked m' = []"
    and "\<exists>m' c. Update E w (KeyMsg ''x'') m = Inr (m', w, c) \<and>
           clipboard m' = keys (marked m) \<and> clipMode m' = ClipCut \<and> marked m' = []"
proof -
  obtain b where
    "browseKey E w ''y'' m =
       Inr (Fallthrough (m\<lparr>clipboard := keys (marked m), clipMode := ClipCopy, marked := [],
                           browse := b\<rparr>) w)"
    using refreshed_returns
      [of w "m\<lparr>clipboard := keys (marked m), clipMode := ClipCopy, marked := []\<rparr>"]
    by (auto simp: browseKey_yank)
  then show "\<exists>m' c. Update E w (KeyMsg ''y'') m = Inr (m', w, c) \<and>
           clipboard m' = keys (marked m) \<and> clipMode m' = ClipCopy \<and> marked m' = []"
    by (simp add: Update_browse_key [OF assms] andThen_def forward_def assms)
  obtain b where
    "browseKey E w ''x'' m =
       Inr (Fallthrough (m\<lparr>clipboard := keys (marked m), clipMode := ClipCut, marked := [],
                           browse := b\<rparr>) w)"
    using refreshed_returns
      [of w "m\<lparr>clipboard := keys (marked m), clipMode := ClipCut, marked := []\<rparr>"]
    by (auto simp: browseKey_cut)
  then show "\<exists>m' c. Update E w (KeyMsg ''x'') m = Inr (m', w, c) \<and>
           clipboard m' = keys (marked m) \<and> clipMode m' = ClipCut \<and> marked m' = []"
    by (simp add: Update_browse_key [OF assms] andThen_def forward_def assms)
qed

text \<open>
  C1. The program is started in \<open>/home\<close>; the cursor is moved to \<open>a.txt\<close>, which is
  marked and unmarked again. The map \<open>marked\<close> then reads false at \<open>/home/a.txt\<close> and
  no entry of the catalog is described as marked, but the key is still in the map, and
  a yank as well as a cut puts the path into the clipboard.
\<close>

theorem yank_after_unmark:
  "andThen (initialModel homeWorld)
     (Updates plainEnv homeWorld [KeyMsg ''down'', KeyMsg ''down'', KeyMsg '' '', KeyMsg '' '']) =
     Inr ((homeBrowsing 2)\<lparr>marked := [(''/home/a.txt'', False)]\<rparr>, homeWorld) \<and>
   \<not> isMarked [(''/home/a.txt'', False)] ''/home/a.txt'' \<and>
   map (Description [(''/home/a.txt'', False)]) homeCatalog =
     [''Parent Directory'', ''Directory'', ''File'', ''File''] \<and>
   Update plainEnv homeWorld (KeyMsg ''y'') ((homeBrowsing 2)\<lparr>marked := [(''/home/a.txt'', False)]\<rparr>) =
     Inr ((homeBrowsing 2)\<lparr>clipboard := [''/home/a.txt''], clipMode := ClipCopy\<rparr>,
          homeWorld, WidgetCmd) \<and>
   Update plainEnv homeWorld (KeyMsg ''x'') ((homeBrowsing 2)\<lparr>marked := [(''/home/a.txt'', False)]\<rparr>) =
     Inr ((homeBrowsing 2)\<lparr>clipboard := [''/home/a.txt''], clipMode := ClipCut\<rparr>,
          homeWorld, WidgetCmd)"
  by code_simp

subsection \<open>TrimSpace\<close>

lemma unicodeSpace_length:
  "w \<in> set unicodeSpace \<Longrightarrow> w \<noteq> [] \<and> length w = encodingLength (hd w)"
  unfolding unicodeSpace_def asciiSpace_def encodingLength_def by auto

lemma leadingSpace_Some:
  "leadingSpace s = Some w \<Longrightarrow> w \<in> set unicodeSpace \<and> take (length w) s = w"
  unfolding leadingSpace_def by (auto simp: find_Some_iff)

lemma trailingSpace_Some:
  "trailingSpace s = Some w \<Longrightarrow>
     w \<in> set unicodeSpace \<and> length w \<le> length s \<and> drop (length s - length w) s = w"
  unfolding trailingSpace_def by (auto simp: find_Some_iff)

lemma leadingSpace_None:
  "leadingSpace s = None \<longleftrightarrow> (\<forall>w\<in>set unicodeSpace. take (length w) s \<noteq> w)"
  unfolding leadingSpace_def by (auto simp: find_None_iff)

lemma trailingSpace_None:
  "trailingSpace s = None \<longleftrightarrow>
     (\<forall>w\<in>set unicodeSpace. \<not> (length w \<le> length s \<and> drop (length s - length w) s = w))"
  unfolding trailingSpace_def by (auto simp: find_None_iff)

lemma leadingSpace_TrimLeftSpace: "leadingSpace (TrimLeftSpace s) = None"
proof (induction s rule: TrimLeftSpace.induct)
  case (1 s)
  show ?case
  proof (cases "leadingSpace s")
    case None
    then show ?thesis by simp
  next
    case (Some w)
    then have "w \<noteq> []" using leadingSpace_Some unicodeSpace_length by blast
    with Some 1 show ?thesis by simp
  qed
qed

lemma trailingSpace_TrimRightSpace: "trailingSpace (TrimRightSpace s) = None"
proof (induction s rule: TrimRightSpace.induct)
  case (1 s)
  show ?case
  proof (cases "trailingSpace s")
    case None
    then show ?thesis by simp
  next
    case (Some w)
    then have "w \<noteq> []" using trailingSpace_Some unicodeSpace_length by blast
    with Some 1 show ?thesis by simp
  qed
qed

lemma TrimRightSpace_take: "\<exists>n. TrimRightSpace s = take n s"
proof (induction s rule: TrimRightSpace.induct)
  case (1 s)
  show ?case
  proof (cases "trailingSpace s")
    case None
    then have "TrimRightSpace s = take (length s) s" by simp
    then show ?thesis by blast
  next
    case (Some w)
    show ?thesis
    proof (cases "w = []")
      case True
      with Some have "TrimRightSpace s = take (length s) s" by simp
      then show ?thesis by blast
    next
      case False
      with 1 Some obtain n where
        "TrimRightSpace (take (length s - length w) s) = take n (take (length s - length w) s)"
        by blast
      with Some False have "TrimRightSpace s = take (min n (length s - length w)) s"
        by simp
      then show ?thesis by blast
    qed
  qed
qed

lemma leadingSpace_take:
  assumes "leadingSpace t = None"
  shows "leadingSpace (take n t) = None"
proof (rule ccontr)
  assume "leadingSpace (take n t) \<noteq> None"
  then obtain w where w: "leadingSpace (take n t) = Some w" by blast
  from leadingSpace_Some [OF w] have m: "w \<in> set unicodeSpace"
    and eq: "take (length w) (take n t) = w" by simp_all
  from eq have "length (take (length w) (take n t)) = length w" by simp
  then have "length w \<le> n" by simp
  with eq have "take (length w) t = w" by (simp add: min_absorb1)
  with m assms show False by (simp add: leadingSpace_None)
qed

lemma TrimSpace_no_space:
  "leadingSpace (TrimSpace s) = None" "trailingSpace (TrimSpace s) = None"
proof -
  obtain n where n: "TrimRightSpace (TrimLeftSpace s) = take n (TrimLeftSpace s)"
    using TrimRightSpace_take by blast
  show "leadingSpace (TrimSpace s) = None"
    unfolding TrimSpace_def n by (rule leadingSpace_take) (rule leadingSpace_TrimLeftSpace)
  show "trailingSpace (TrimSpace s) = None"
    unfolding TrimSpace_def by (rule trailingSpace_TrimRightSpace)
qed

lemma TrimSpace_fixed:
  "leadingSpace s = None \<Longrightarrow> trailingSpace s = None \<Longrightarrow> TrimSpace s = s"
  by (simp add: TrimSpace_def)

lemma TrimSpace_idem: "TrimSpace (TrimSpace s) = TrimSpace s"
  by (rule TrimSpace_fixed) (rule TrimSpace_no_space)+

lemma TrimLeftSpace_spaces:
  "set ws \<subseteq> set unicodeSpace \<Longrightarrow> TrimLeftSpace (concat ws @ s) = TrimLeftSpace s"
proof (induction ws)
  case Nil
  then show ?case by simp
next
  case (Cons w ws)
  then have w: "w \<in> set unicodeSpace" by simp
  then have "take (length w) (w @ concat ws @ s) = w" by simp
  with w have "\<not> (\<forall>v\<in>set unicodeSpace. take (length v) (w @ concat ws @ s) \<noteq> v)"
    by blast
  then have "leadingSpace (w @ concat ws @ s) \<noteq> None"
    by (simp only: leadingSpace_None) simp
  then obtain w' where w': "leadingSpace (w @ concat ws @ s) = Some w'" by blast
  from leadingSpace_Some [OF w'] have m': "w' \<in> set unicodeSpace"
    and t: "take (length w') (w @ concat ws @ s) = w'" by simp_all
  have "hd w' = hd (take (length w') (w @ concat ws @ s))"
    using t by simp
  also have "\<dots> = hd (w @ concat ws @ s)"
  proof (rule hd_take)
    from unicodeSpace_length [OF m'] have "w' \<noteq> []" by simp
    then show "0 < length w'" by simp
  qed
  also have "\<dots> = hd w"
    using unicodeSpace_length [OF w] by simp
  finally have "hd w' = hd w" .
  with unicodeSpace_length [OF w] unicodeSpace_length [OF m'] have "length w' = length w"
    by simp
  with t have "w' = w" by simp
  with w' unicodeSpace_length [OF w] have
    "TrimLeftSpace (w @ concat ws @ s) = TrimLeftSpace (concat ws @ s)"
    by simp
  with Cons show ?case by simp
qed

lemma TrimSpace_spaces: "set ws \<subseteq> set unicodeSpace \<Longrightarrow> TrimSpace (concat ws) = []"
proof -
  assume a: "set ws \<subseteq> set unicodeSpace"
  have "trailingSpace [] = None"
    using unicodeSpace_length by (auto simp: trailingSpace_None)
  moreover have "leadingSpace [] = None"
    using unicodeSpace_length by (auto simp: leadingSpace_None)
  ultimately show ?thesis
    using TrimLeftSpace_spaces [OF a, of "[]"] by (simp add: TrimSpace_def)
qed

subsection \<open>refreshBrowse and handleInput, unfolded\<close>

lemma refreshBrowse_alt:
  "refreshBrowse w m =
     (case ReadDir w (cwd m) of
        Inl err \<Rightarrow> Inr m
      | Inr es \<Rightarrow>
          andThen (rangeEntries (showHidden m) (cwd m) es (parentLink (cwd m)) [])
            (\<lambda>(dirs, fls).
               Inr (m\<lparr>browse := SetItems (dirs @ fls)
                                  ((browse m)\<lparr>title := browseTitle (cwd m) (showHidden m)\<rparr>)\<rparr>)))"
  unfolding refreshBrowse_def parentLink_def browseTitle_def Let_def ..

lemma refreshBrowse_fields:
  assumes "cwd m' = cwd m" and "showHidden m' = showHidden m" and "browse m' = browse m"
  shows "refreshBrowse w m' =
           andThen (refreshBrowse w m) (\<lambda>r. Inr (m'\<lparr>browse := browse r\<rparr>))"
  using assms
  by (simp add: refreshBrowse_alt andThen_def split: sum.split prod.split)

lemma handleInput_alt:
  "handleInput w m =
     (if TrimSpace (input m) = [] then Inr (m, w)
      else andThen (commitInput w m (TrimSpace (input m)))
             (\<lambda>w'. andThen (refreshBrowse w' (m\<lparr>mode := ModeBrowse\<rparr>)) (\<lambda>m'. Inr (m', w'))))"
  unfolding handleInput_def commitInput_def Let_def ..

lemma commitInput_input: "commitInput w (m\<lparr>input := s\<rparr>) inp = commitInput w m inp"
  by (simp add: commitInput_def Let_def split: option.split)

lemma handleInput_blank:
  "TrimSpace (input m) = [] \<Longrightarrow> handleInput w m = Inr (m, w)"
  by (simp add: handleInput_def)

lemma handleInput_via_trimmed:
  "handleInput w (m\<lparr>input := s\<rparr>) =
     andThen (handleInput w (m\<lparr>input := TrimSpace s\<rparr>)) (\<lambda>(m', w'). Inr (m'\<lparr>input := s\<rparr>, w'))"
proof (cases "TrimSpace s = []")
  case True
  then have "TrimSpace [] = []"
    using TrimSpace_idem [of s] by simp
  with True show ?thesis
    by (simp add: handleInput_alt andThen_def)
next
  case False
  have r: "refreshBrowse w' (m\<lparr>input := v, mode := ModeBrowse\<rparr>) =
             andThen (refreshBrowse w' (m\<lparr>mode := ModeBrowse\<rparr>))
               (\<lambda>r. Inr (r\<lparr>input := v\<rparr>))" for w' v
  proof -
    have "refreshBrowse w' (m\<lparr>input := v, mode := ModeBrowse\<rparr>) =
            andThen (refreshBrowse w' (m\<lparr>mode := ModeBrowse\<rparr>))
              (\<lambda>r. Inr (m\<lparr>input := v, mode := ModeBrowse, browse := browse r\<rparr>))"
      by (rule refreshBrowse_fields) simp_all
    moreover obtain b where "refreshBrowse w' (m\<lparr>mode := ModeBrowse\<rparr>) = Inr (m\<lparr>mode := ModeBrowse, browse := b\<rparr>)"
      using refreshBrowse_returns [of w' "m\<lparr>mode := ModeBrowse\<rparr>"] by auto
    ultimately show ?thesis by (simp add: andThen_def)
  qed
  show ?thesis
    using False
    by (simp add: handleInput_alt TrimSpace_idem commitInput_input r andThen_def
        split: sum.split)
qed

subsection \<open>Commit in Input mode\<close>

lemma inputKey_enter: "inputKey E w ''enter'' m =
     andThen (handleInput w m)
       (\<lambda>(m', w'). Inr (Return (m'\<lparr>input := inputUpdate E (KeyMsg ''enter'') (input m')\<rparr>) w' WidgetCmd))"
  by (simp add: inputKey_def Matches_def newKeyMap_def)

lemma Update_input_enter:
  "mode m = ModeInput \<Longrightarrow>
   Update E w (KeyMsg ''enter'') m =
     andThen (handleInput w m)
       (\<lambda>(m', w'). Inr (m'\<lparr>input := inputUpdate E (KeyMsg ''enter'') (input m')\<rparr>, w', WidgetCmd))"
  by (simp add: Update_def inputKey_enter andThen_def forward_def split: sum.split prod.split)

text \<open>
  C4, amended. On enter in Input mode \<open>Update\<close> hands the model to \<open>handleInput\<close>
  and gives the key to the text input. When the buffer is empty after trimming, nothing
  else happens: the file system and the model stay as they are, the mode is still
  Input, and the catalog is not refreshed. When it is not empty (and, for a rename, an
  entry is selected), the switch over the target runs on the trimmed buffer, the mode
  becomes Browse and the catalog is refreshed from the new file system.
\<close>

theorem input_commit:
  assumes "mode m = ModeInput"
  shows "Update E w (KeyMsg ''enter'') m =
           andThen (handleInput w m)
             (\<lambda>(m', w'). Inr (m'\<lparr>input := inputUpdate E (KeyMsg ''enter'') (input m')\<rparr>, w', WidgetCmd)) \<and>
         (TrimSpace (input m) = [] \<longrightarrow>
            Update E w (KeyMsg ''enter'') m =
              Inr (m\<lparr>input := inputUpdate E (KeyMsg ''enter'') (input m)\<rparr>, w, WidgetCmd)) \<and>
         (TrimSpace (input m) \<noteq> [] \<and>
          (inputTarget m = ''rename'' \<longrightarrow> SelectedItem (browse m) \<noteq> None) \<longrightarrow>
            (\<exists>w' r. commitInput w m (TrimSpace (input m)) = Inr w' \<and>
                    refreshBrowse w' (m\<lparr>mode := ModeBrowse\<rparr>) = Inr r \<and>
                    mode r = ModeBrowse \<and>
                    Update E w (KeyMsg ''enter'') m =
                      Inr (r\<lparr>input := inputUpdate E (KeyMsg ''enter'') (input r)\<rparr>, w', WidgetCmd)))"
proof (intro conjI impI)
  show u: "Update E w (KeyMsg ''enter'') m =
           andThen (handleInput w m)
             (\<lambda>(m', w'). Inr (m'\<lparr>input := inputUpdate E (KeyMsg ''enter'') (input m')\<rparr>, w', WidgetCmd))"
    by (rule Update_input_enter [OF assms])
  show "Update E w (KeyMsg ''enter'') m =
          Inr (m\<lparr>input := inputUpdate E (KeyMsg ''enter'') (input m)\<rparr>, w, WidgetCmd)"
    if "TrimSpace (input m) = []"
    using that by (simp add: u handleInput_blank andThen_def)
  show "\<exists>w' r. commitInput w m (TrimSpace (input m)) = Inr w' \<and>
               refreshBrowse w' (m\<lparr>mode := ModeBrowse\<rparr>) = Inr r \<and>
               mode r = ModeBrowse \<and>
               Update E w (KeyMsg ''enter'') m =
                 Inr (r\<lparr>input := inputUpdate E (KeyMsg ''enter'') (input r)\<rparr>, w', WidgetCmd)"
    if h: "TrimSpace (input m) \<noteq> [] \<and>
           (inputTarget m = ''rename'' \<longrightarrow> SelectedItem (browse m) \<noteq> None)"
  proof -
    have "\<exists>w'. commitInput w m (TrimSpace (input m)) = Inr w'"
      using h unfolding commitInput_def Let_def
      by (cases "SelectedItem (browse m)") simp_all
    then obtain w' where c: "commitInput w m (TrimSpace (input m)) = Inr w'" by blast
    obtain b where r: "refreshBrowse w' (m\<lparr>mode := ModeBrowse\<rparr>) = Inr (m\<lparr>mode := ModeBrowse, browse := b\<rparr>)"
      using refreshBrowse_returns [of w' "m\<lparr>mode := ModeBrowse\<rparr>"] by auto
    have "handleInput w m = Inr (m\<lparr>mode := ModeBrowse, browse := b\<rparr>, w')"
      using h c r by (simp add: handleInput_alt andThen_def)
    then have "Update E w (KeyMsg ''enter'') m =
                 Inr ((m\<lparr>mode := ModeBrowse, browse := b\<rparr>)
                        \<lparr>input := inputUpdate E (KeyMsg ''enter'')
                                    (input (m\<lparr>mode := ModeBrowse, browse := b\<rparr>))\<rparr>, w', WidgetCmd)"
      by (simp add: u andThen_def)
    with c r show ?thesis by force
  qed
qed

text \<open>The claim as it stands fails for the empty buffer: after \<open>i\<close> and enter the
  program is still in Input mode.\<close>

theorem input_commit_empty_counterexample:
  "Updates plainEnv homeWorld [KeyMsg ''i'', KeyMsg ''enter''] (homeBrowsing 2) =
     Inr (homeInput ''create'' [], homeWorld) \<and>
   mode (homeInput ''create'' []) = ModeInput"
  by code_simp

theorem input_commit_witness:
  "mode (homeInput ''create'' ''  '') = ModeInput \<and>
   TrimSpace (input (homeInput ''create'' ''  '')) = [] \<and>
   Update plainEnv homeWorld (KeyMsg ''enter'') (homeInput ''create'' ''  '') =
     Inr (homeInput ''create'' ''  '', homeWorld, WidgetCmd) \<and>
   mode (homeInput ''create'' ''logs/'') = ModeInput \<and>
   TrimSpace (input (homeInput ''create'' ''logs/'')) \<noteq> [] \<and>
   inputTarget (homeInput ''create'' ''logs/'') \<noteq> ''rename'' \<and>
   (\<exists>w' r. commitInput homeWorld (homeInput ''create'' ''logs/'') ''logs/'' = Inr w' \<and>
      stat w' [''home'', ''logs''] = Some Directory \<and>
      refreshBrowse w' ((homeInput ''create'' ''logs/'')\<lparr>mode := ModeBrowse\<rparr>) = Inr r \<and>
      mode r = ModeBrowse \<and>
      map name (items (browse r)) = [''..'', ''d'', ''logs'', ''a.txt'', ''b.txt''] \<and>
      Update plainEnv homeWorld (KeyMsg ''enter'') (homeInput ''create'' ''logs/'') =
        Inr (r, w', WidgetCmd))"
proof -
  have a: "mode (homeInput ''create'' ''  '') = ModeInput"
    and b: "TrimSpace (input (homeInput ''create'' ''  '')) = []"
    and c: "mode (homeInput ''create'' ''logs/'') = ModeInput"
    and d: "TrimSpace (input (homeInput ''create'' ''logs/'')) = ''logs/''"
    and e: "inputTarget (homeInput ''create'' ''logs/'') \<noteq> ''rename''"
    by code_simp+
  have f: "commitInput homeWorld (homeInput ''create'' ''logs/'') ''logs/'' =
             Inr (put [''home'', ''logs''] Directory homeWorld)"
    by code_simp
  have g: "map_sum id (map name \<circ> items \<circ> browse)
             (refreshBrowse (put [''home'', ''logs''] Directory homeWorld)
                ((homeInput ''create'' ''logs/'')\<lparr>mode := ModeBrowse\<rparr>)) =
           Inr [''..'', ''d'', ''logs'', ''a.txt'', ''b.txt'']"
    by code_simp
  have h: "stat (put [''home'', ''logs''] Directory homeWorld) [''home'', ''logs''] = Some Directory"
    by code_simp
  have i: "inputUpdate plainEnv (KeyMsg ''enter'') v = v" for v
    by (simp add: plainEnv_def)
  have 1: "Update plainEnv homeWorld (KeyMsg ''enter'') (homeInput ''create'' ''  '') =
     Inr (homeInput ''create'' ''  '', homeWorld, WidgetCmd)"
    using input_commit [OF a, of plainEnv homeWorld, THEN conjunct2, THEN conjunct1] b
    by (simp add: i)
  have "TrimSpace (input (homeInput ''create'' ''logs/'')) \<noteq> [] \<and>
        (inputTarget (homeInput ''create'' ''logs/'') = ''rename'' \<longrightarrow>
           SelectedItem (browse (homeInput ''create'' ''logs/'')) \<noteq> None)"
    using d e by simp
  with input_commit [OF c, of plainEnv homeWorld, THEN conjunct2, THEN conjunct2]
  obtain w' r where
    "commitInput homeWorld (homeInput ''create'' ''logs/'')
       (TrimSpace (input (homeInput ''create'' ''logs/''))) = Inr w'"
    "refreshBrowse w' ((homeInput ''create'' ''logs/'')\<lparr>mode := ModeBrowse\<rparr>) = Inr r"
    "mode r = ModeBrowse"
    "Update plainEnv homeWorld (KeyMsg ''enter'') (homeInput ''create'' ''logs/'') =
       Inr (r\<lparr>input := inputUpdate plainEnv (KeyMsg ''enter'') (input r)\<rparr>, w', WidgetCmd)"
    by blast
  with d f g h
  have 2: "\<exists>w' r. commitInput homeWorld (homeInput ''create'' ''logs/'') ''logs/'' = Inr w' \<and>
      stat w' [''home'', ''logs''] = Some Directory \<and>
      refreshBrowse w' ((homeInput ''create'' ''logs/'')\<lparr>mode := ModeBrowse\<rparr>) = Inr r \<and>
      mode r = ModeBrowse \<and>
      map name (items (browse r)) = [''..'', ''d'', ''logs'', ''a.txt'', ''b.txt''] \<and>
      Update plainEnv homeWorld (KeyMsg ''enter'') (homeInput ''create'' ''logs/'') =
        Inr (r, w', WidgetCmd)"
    by (simp add: i)
  show ?thesis using a b c d e 1 2 by simp
qed

subsection \<open>Hidden files\<close>

lemma refreshBrowse_shape:
  assumes "ReadDir w (cwd m) = Inr es"
  shows "\<exists>m'. refreshBrowse w m = Inr m' \<and>
           items (browse m') =
             parentLink (cwd m) @
             map (\<lambda>e. \<lparr>name = Name e, path = Join (cwd m) (Name e), isDir = True, isParent = False\<rparr>)
               (filter IsDir (filter (\<lambda>e. showHidden m \<or> hd (Name e) \<noteq> CHR ''.'') es)) @
             map (\<lambda>e. \<lparr>name = Name e, path = Join (cwd m) (Name e), isDir = False, isParent = False\<rparr>)
               (filter (\<lambda>e. \<not> IsDir e) (filter (\<lambda>e. showHidden m \<or> hd (Name e) \<noteq> CHR ''.'') es))"
proof -
  have ne: "\<forall>e\<in>set es. showHidden m \<or> Name e \<noteq> []"
    using ReadDir_names_nonempty [OF assms] by blast
  show ?thesis
    by (simp add: refreshBrowse_alt assms andThen_def SetItems_def rangeEntries_shape [OF ne])
qed

text \<open>
  C7, amended. When the directory can be read, the catalog without hidden files is the
  catalog with hidden files from which the entries with a name starting with a dot have
  been removed, except the parent link, which stays (its name is \<open>..\<close>). The order
  of the entries that stay is the same in both.
\<close>

theorem hidden_toggle_catalog:
  assumes "ReadDir w (cwd m) = Inr es"
  shows "\<exists>mh ms. refreshBrowse w (m\<lparr>showHidden := True\<rparr>) = Inr mh \<and>
                 refreshBrowse w (m\<lparr>showHidden := False\<rparr>) = Inr ms \<and>
                 items (browse ms) = filter keptWhenHidden (items (browse mh))"
proof -
  have ne: "\<forall>e\<in>set es. Name e \<noteq> []"
    using ReadDir_names_nonempty [OF assms] by blast
  have r: "ReadDir w (cwd (m\<lparr>showHidden := b\<rparr>)) = Inr es" for b
    using assms by simp
  from refreshBrowse_shape [OF r [of True]] obtain mh where
    mh: "refreshBrowse w (m\<lparr>showHidden := True\<rparr>) = Inr mh"
    and ih: "items (browse mh) =
       parentLink (cwd m) @
       map (\<lambda>e. \<lparr>name = Name e, path = Join (cwd m) (Name e), isDir = True, isParent = False\<rparr>)
         (filter IsDir es) @
       map (\<lambda>e. \<lparr>name = Name e, path = Join (cwd m) (Name e), isDir = False, isParent = False\<rparr>)
         (filter (\<lambda>e. \<not> IsDir e) es)"
    by auto
  from refreshBrowse_shape [OF r [of False]] obtain ms where
    ms: "refreshBrowse w (m\<lparr>showHidden := False\<rparr>) = Inr ms"
    and "items (browse ms) =
       parentLink (cwd m) @
       map (\<lambda>e. \<lparr>name = Name e, path = Join (cwd m) (Name e), isDir = True, isParent = False\<rparr>)
         (filter IsDir (filter (\<lambda>e. hd (Name e) \<noteq> CHR ''.'') es)) @
       map (\<lambda>e. \<lparr>name = Name e, path = Join (cwd m) (Name e), isDir = False, isParent = False\<rparr>)
         (filter (\<lambda>e. \<not> IsDir e) (filter (\<lambda>e. hd (Name e) \<noteq> CHR ''.'') es))"
    by auto
  moreover have "filter (\<lambda>e. hd (Name e) \<noteq> CHR ''.'') es = filter (\<lambda>e. \<not> dotPrefixed (Name e)) es"
    using ne by (intro filter_cong) (auto simp: dotPrefixed_def)
  moreover have "filter keptWhenHidden (parentLink d) = parentLink d" for d
    by (simp add: parentLink_def keptWhenHidden_def)
  ultimately have "items (browse ms) = filter keptWhenHidden (items (browse mh))"
    by (simp add: ih filter_map o_def keptWhenHidden_def conj_commute)
  with mh ms show ?thesis by blast
qed

theorem hidden_toggle_catalog_witness:
  "ReadDir homeWorld (cwd homeModel) = Inr homeEntries \<and>
   (\<exists>mh ms. refreshBrowse homeWorld (homeModel\<lparr>showHidden := True\<rparr>) = Inr mh \<and>
                 refreshBrowse homeWorld (homeModel\<lparr>showHidden := False\<rparr>) = Inr ms \<and>
                 items (browse ms) = filter keptWhenHidden (items (browse mh)))"
proof -
  have r: "ReadDir homeWorld (cwd homeModel) = Inr homeEntries"
    using ReadDir_homeWorld by (simp add: homeModel_def)
  show ?thesis
    using r hidden_toggle_catalog [OF r] by simp
qed

text \<open>The claim as it stands fails in \<open>/home\<close>: removing every name that starts with
  a dot from the catalog with hidden files removes the parent link too.\<close>

theorem hidden_toggle_parent_link_counterexample:
  "catalogNames (refreshBrowse homeWorld (homeModel\<lparr>showHidden := True\<rparr>)) =
     [''..'', ''d'', ''.cfg'', ''a.txt'', ''b.txt''] \<and>
   catalogNames (refreshBrowse homeWorld (homeModel\<lparr>showHidden := False\<rparr>)) =
     [''..'', ''d'', ''a.txt'', ''b.txt''] \<and>
   filter (Not \<circ> dotPrefixed) [''..'', ''d'', ''.cfg'', ''a.txt'', ''b.txt''] =
     [''d'', ''a.txt'', ''b.txt''] \<and>
   catalogNames (refreshBrowse homeWorld (homeModel\<lparr>showHidden := False\<rparr>)) \<noteq>
     filter (Not \<circ> dotPrefixed)
       (catalogNames (refreshBrowse homeWorld (homeModel\<lparr>showHidden := True\<rparr>)))"
  by code_simp

subsection \<open>Creating directories and files\<close>

lemma stat_put: "stat (put p n w) r = (if r = p \<and> r \<noteq> [] then Some n else stat w r)"
  by (simp add: stat_def put_def)

lemma wd_put [simp]: "wd (put p n w) = wd w"
  by (simp add: put_def)


lemma wellFormed_put:
  assumes "wellFormed w" and "stat w (butlast p) = Some Directory"
    and "n = Directory \<or> stat w p = None"
  shows "wellFormed (put p n w)"
  unfolding wellFormed_def
proof (intro allI impI)
  fix r
  assume r: "stat (put p n w) r \<noteq> None"
  show "stat (put p n w) (butlast r) = Some Directory"
  proof (cases "r = p \<and> r \<noteq> []")
    case True
    with assms(2,3) show ?thesis by (auto simp: stat_put)
  next
    case False
    with r have "stat w r \<noteq> None" by (auto simp: stat_put)
    with assms(1) have d: "stat w (butlast r) = Some Directory"
      by (simp add: wellFormed_def)
    with assms(3) show ?thesis by (auto simp: stat_put)
  qed
qed

lemma wellFormed_prefix:
  "wellFormed w \<Longrightarrow> stat w p \<noteq> None \<Longrightarrow> k < length p \<Longrightarrow> stat w (take k p) = Some Directory"
proof (induction p rule: rev_induct)
  case Nil
  then show ?case by simp
next
  case (snoc x xs)
  then have d: "stat w xs = Some Directory"
    by (auto simp: wellFormed_def dest: spec [of _ "xs @ [x]"])
  show ?case
  proof (cases "k < length xs")
    case True
    with snoc d show ?thesis by simp
  next
    case False
    with snoc.prems have "k = length xs" by simp
    with d show ?thesis by simp
  qed
qed

lemma mkdirAllAt_frame:
  "mkdirAllAt w p = Inr w' \<Longrightarrow>
   wd w' = wd w \<and> (\<forall>r. stat w r \<noteq> None \<longrightarrow> stat w' r = stat w r) \<and>
   (\<forall>r. stat w' r \<noteq> stat w r \<longrightarrow>
        stat w' r = Some Directory \<and> (\<exists>k\<le>length p. r = take k p))"
proof (induction w p arbitrary: w' rule: mkdirAllAt.induct)
  case (1 w p)
  note unfold = mkdirAllAt.simps [of w p]
  show ?case
  proof (cases "stat w p")
    case None
    show ?thesis
    proof (cases "p = []")
      case True
      with None show ?thesis by (simp add: stat_def)
    next
      case False
      with None 1(2) obtain w1 where w1: "mkdirAllAt w (butlast p) = Inr w1"
        and w': "w' = put p Directory w1"
        by (auto simp: unfold split: sum.splits)
      from 1(1) [OF None False w1] have a: "wd w1 = wd w"
        and b: "\<forall>r. stat w r \<noteq> None \<longrightarrow> stat w1 r = stat w r"
        and c: "\<forall>r. stat w1 r \<noteq> stat w r \<longrightarrow>
                  stat w1 r = Some Directory \<and> (\<exists>k\<le>length (butlast p). r = take k (butlast p))"
        by simp_all
      have d: "\<exists>k\<le>length p. r = take k p" if "\<exists>k\<le>length (butlast p). r = take k (butlast p)" for r
      proof -
        from that obtain k where k: "k \<le> length (butlast p)" and r: "r = take k (butlast p)"
          by blast
        from k False have "k < length p" by (cases p rule: rev_cases) auto
        with r have "r = take k p \<and> k \<le> length p" by (simp add: take_butlast)
        then show ?thesis by blast
      qed
      have e: "\<exists>k\<le>length p. p = take k p" by (intro exI [of _ "length p"]) simp
      show ?thesis
        using None a b c d e unfolding w' by (auto simp: stat_put)
    qed
  next
    case (Some n)
    with 1(2) show ?thesis by (cases n) (auto simp: unfold)
  qed
qed

lemma noFileOnPath_butlast: "noFileOnPath w p \<Longrightarrow> noFileOnPath w (butlast p)"
  unfolding noFileOnPath_def
proof (intro allI impI)
  fix k b
  assume a: "\<forall>k\<le>length p. \<forall>b. stat w (take k p) \<noteq> Some (RegularFile b)"
    and "k \<le> length (butlast p)"
  then have "take k (butlast p) = take k p \<and> k \<le> length p"
    by (cases p rule: rev_cases) auto
  with a show "stat w (take k (butlast p)) \<noteq> Some (RegularFile b)" by simp
qed

lemma mkdirAllAt_creates:
  assumes "wellFormed w" and "noFileOnPath w p"
  shows "\<exists>w'. mkdirAllAt w p = Inr w' \<and> wellFormed w' \<and> stat w' p = Some Directory \<and>
              (stat w p = Some Directory \<longrightarrow> w' = w)"
  using assms
proof (induction w p rule: mkdirAllAt.induct)
  case (1 w p)
  note unfold = mkdirAllAt.simps [of w p]
  show ?case
  proof (cases "stat w p")
    case None
    then have ne: "p \<noteq> []" by (auto simp: stat_def)
    have "noFileOnPath w (butlast p)"
      using 1(3) by (rule noFileOnPath_butlast)
    with 1(1) [OF None ne 1(2)] obtain w1 where w1: "mkdirAllAt w (butlast p) = Inr w1"
      and wf1: "wellFormed w1" and d1: "stat w1 (butlast p) = Some Directory"
      by blast
    have "wellFormed (put p Directory w1)"
      using wf1 d1 by (intro wellFormed_put) simp_all
    with None ne w1 show ?thesis
      by (simp add: unfold stat_put)
  next
    case (Some n)
    with 1(3) have "n = Directory"
      unfolding noFileOnPath_def by (cases n) (auto dest: spec [of _ "length p"])
    with Some 1(2) show ?thesis by (simp add: unfold)
  qed
qed


lemma wellFormed_prefixes:
  assumes "wellFormed w" and "stat w p = Some Directory" and "k \<le> length p"
  shows "stat w (take k p) = Some Directory"
proof (cases "k = length p")
  case True
  with assms(2) show ?thesis by simp
next
  case False
  with assms show ?thesis by (intro wellFormed_prefix) simp_all
qed

text \<open>What \<open>os.OpenFile\<close> with \<open>O_CREATE|O_EXCL\<close> does at a resolved path.\<close>

lemma OpenFile_CREATE_EXCL_at:
  "resolve w s = Some p \<Longrightarrow>
   ignoring w (OpenFile_CREATE_EXCL w s) =
     (if stat w p = None \<and> stat w (butlast p) = Some Directory
      then put p (RegularFile []) w else w)"
  by (auto simp: OpenFile_CREATE_EXCL_def ignoring_def parentCheck_def
      split: option.splits node.splits)

lemma Join_resolves:
  assumes "a \<noteq> []" and "hd a = CHR ''/''"
  shows "\<exists>p. (\<forall>w. resolve w (Join a b) = Some p) \<and>
             (\<forall>w. resolve w (Dir (Join a b)) = Some (butlast p))"
proof -
  define xs where "xs = elements (a @ ''/'' @ b)"
  have v: "\<forall>x\<in>set xs. validName x"
    unfolding xs_def by (rule elements_valid)
  then have vb: "\<forall>x\<in>set (butlast xs). validName x"
    by (auto dest: in_set_butlastD)
  have j: "Join a b = ''/'' @ Join_strings xs ''/''"
    unfolding xs_def by (rule Join_rooted [OF assms])
  have "\<forall>w. resolve w (Join a b) = Some xs"
    unfolding j using resolve_rooted [OF v] by blast
  moreover have "\<forall>w. resolve w (Dir (Join a b)) = Some (butlast xs)"
    unfolding j Dir_rooted [OF v] using resolve_rooted [OF vb] by blast
  ultimately show ?thesis by blast
qed


lemma ignoring_mkdirAllAt:
  "wd (ignoring w (mkdirAllAt w p)) = wd w \<and>
   (\<forall>r. stat w r \<noteq> None \<longrightarrow> stat (ignoring w (mkdirAllAt w p)) r = stat w r) \<and>
   (\<forall>r. stat (ignoring w (mkdirAllAt w p)) r \<noteq> stat w r \<longrightarrow>
        stat (ignoring w (mkdirAllAt w p)) r = Some Directory \<and> (\<exists>k\<le>length p. r = take k p))"
proof (cases "mkdirAllAt w p")
  case (Inl e)
  then show ?thesis by (simp add: ignoring_def)
next
  case (Inr w')
  with mkdirAllAt_frame [OF Inr] show ?thesis by (simp add: ignoring_def)
qed

lemma ignoring_mkdirAllAt_creates:
  assumes "wellFormed w" and "noFileOnPath w p"
  shows "wellFormed (ignoring w (mkdirAllAt w p)) \<and>
         stat (ignoring w (mkdirAllAt w p)) p = Some Directory"
  using mkdirAllAt_creates [OF assms] by (auto simp: ignoring_def)

text \<open>
  C3, amended. The program browses a directory with an absolute path in a well-formed
  file system, and a commit with target Create finds a buffer that is not empty after
  trimming. The path is \<open>Join cwd t\<close> for the trimmed buffer \<open>t\<close>. Whatever was in the
  file system before stays as it was. When \<open>t\<close> ends with a separator and the path is
  free of files, the path and all its ancestors are directories afterwards. When \<open>t\<close>
  does not end with a separator and the parent of the path is free of files, all
  ancestors of the path are directories afterwards, and an empty file stands at the path
  if nothing was there. When \<open>t\<close> does not end with a separator and something is at
  the path already, the file system is not changed at all.
\<close>

theorem create_commit:
  assumes wf: "wellFormed w"
    and abs: "cwd m \<noteq> [] \<and> hd (cwd m) = CHR ''/''"
    and tgt: "inputTarget m = ''create''"
    and ne: "TrimSpace (input m) \<noteq> []"
  shows "\<exists>p w' m'. resolve w (Join (cwd m) (TrimSpace (input m))) = Some p \<and>
           handleInput w m = Inr (m', w') \<and>
           (\<forall>r. stat w r \<noteq> None \<longrightarrow> stat w' r = stat w r) \<and>
           (HasSuffix (TrimSpace (input m)) ''/'' \<and> noFileOnPath w p \<longrightarrow>
              (\<forall>k\<le>length p. stat w' (take k p) = Some Directory)) \<and>
           (\<not> HasSuffix (TrimSpace (input m)) ''/'' \<and> noFileOnPath w (butlast p) \<longrightarrow>
              (\<forall>k<length p. stat w' (take k p) = Some Directory) \<and>
              (stat w p = None \<longrightarrow> stat w' p = Some (RegularFile []))) \<and>
           (\<not> HasSuffix (TrimSpace (input m)) ''/'' \<and> stat w p \<noteq> None \<longrightarrow> w' = w)"
proof -
  define t where "t = TrimSpace (input m)"
  define full where "full = Join (cwd m) t"
  from Join_resolves [of "cwd m" t] abs obtain p where
    rp: "\<And>v. resolve v full = Some p" and rd: "\<And>v. resolve v (Dir full) = Some (butlast p)"
    unfolding full_def by blast
  define w1 where "w1 = ignoring w (mkdirAllAt w (butlast p))"
  define w' where
    "w' = (if HasSuffix t ''/'' then ignoring w1 (mkdirAllAt w1 p)
           else ignoring w1 (OpenFile_CREATE_EXCL w1 full))"
  have c: "commitInput w m t = Inr w'"
    by (simp add: commitInput_def tgt Let_def full_def [symmetric] MkdirAll_def rp rd
        w1_def [symmetric] w'_def)
  obtain b where "refreshBrowse w' (m\<lparr>mode := ModeBrowse\<rparr>) = Inr (m\<lparr>mode := ModeBrowse, browse := b\<rparr>)"
    using refreshBrowse_returns [of w' "m\<lparr>mode := ModeBrowse\<rparr>"] by auto
  with c ne have h: "handleInput w m = Inr (m\<lparr>mode := ModeBrowse, browse := b\<rparr>, w')"
    by (simp add: handleInput_alt t_def [symmetric] andThen_def)
  note one = ignoring_mkdirAllAt [of w "butlast p", folded w1_def]
  have frame1: "stat w1 r = stat w r" if "stat w r \<noteq> None" for r
    using one that by blast
  have changed1: "stat w1 r = Some Directory \<and> (\<exists>k\<le>length (butlast p). r = take k (butlast p))"
    if "stat w1 r \<noteq> stat w r" for r
    using one that by blast
  have excl: "ignoring w1 (OpenFile_CREATE_EXCL w1 full) =
                (if stat w1 p = None \<and> stat w1 (butlast p) = Some Directory
                 then put p (RegularFile []) w1 else w1)"
    by (rule OpenFile_CREATE_EXCL_at) (rule rp)
  have frame: "\<forall>r. stat w r \<noteq> None \<longrightarrow> stat w' r = stat w r"
  proof (intro allI impI)
    fix r
    assume r: "stat w r \<noteq> None"
    then have r1: "stat w1 r = stat w r" by (rule frame1)
    show "stat w' r = stat w r"
    proof (cases "HasSuffix t ''/''")
      case True
      with ignoring_mkdirAllAt [of w1 p] r r1 show ?thesis
        by (simp add: w'_def)
    next
      case False
      with r r1 show ?thesis
        by (auto simp: w'_def excl stat_put)
    qed
  qed
  have dirs: "\<forall>k\<le>length p. stat w' (take k p) = Some Directory"
    if suffix: "HasSuffix t ''/''" and clear: "noFileOnPath w p"
  proof -
    have "noFileOnPath w1 p"
      unfolding noFileOnPath_def
    proof (intro allI impI)
      fix k b
      assume "k \<le> length p"
      with clear have "stat w (take k p) \<noteq> Some (RegularFile b)"
        by (simp add: noFileOnPath_def)
      then show "stat w1 (take k p) \<noteq> Some (RegularFile b)"
        using changed1 [of "take k p"] by (cases "stat w1 (take k p) = stat w (take k p)") auto
    qed
    moreover have "wellFormed w1"
      unfolding w1_def
      using ignoring_mkdirAllAt_creates [OF wf noFileOnPath_butlast [OF clear]] by blast
    ultimately have "wellFormed w' \<and> stat w' p = Some Directory"
      using suffix ignoring_mkdirAllAt_creates [of w1 p] by (simp add: w'_def)
    then show ?thesis by (auto intro: wellFormed_prefixes)
  qed
  have fileCase: "(\<forall>k<length p. stat w' (take k p) = Some Directory) \<and>
              (stat w p = None \<longrightarrow> stat w' p = Some (RegularFile []))"
    if nosuffix: "\<not> HasSuffix t ''/''" and clear: "noFileOnPath w (butlast p)"
  proof -
    from ignoring_mkdirAllAt_creates [OF wf clear]
    have wf1: "wellFormed w1" and d1: "stat w1 (butlast p) = Some Directory"
      by (simp_all add: w1_def)
    have pre1: "stat w1 (take k p) = Some Directory" if "k < length p" for k
    proof -
      from that have "take k p = take k (butlast p)" by (simp add: take_butlast)
      moreover from that have "k \<le> length (butlast p)" by simp
      ultimately show ?thesis
        using wellFormed_prefixes [OF wf1 d1, of k] by simp
    qed
    have pre: "\<forall>k<length p. stat w' (take k p) = Some Directory"
    proof (intro allI impI)
      fix k
      assume k: "k < length p"
      have "take k p \<noteq> p"
      proof
        assume "take k p = p"
        then have "length (take k p) = length p" by simp
        with k show False by simp
      qed
      with pre1 [OF k] nosuffix show "stat w' (take k p) = Some Directory"
        by (simp add: w'_def excl stat_put)
    qed
    have new: "stat w' p = Some (RegularFile [])" if none: "stat w p = None"
    proof -
      from none have pne: "p \<noteq> []" by (auto simp: stat_def)
      have "stat w1 p = None"
      proof (rule ccontr)
        assume "stat w1 p \<noteq> None"
        with none changed1 [of p] obtain k where "k \<le> length (butlast p)"
          and "p = take k (butlast p)"
          by auto
        then have eq: "length p = length (take k (butlast p))" by simp
        have le: "length (take k (butlast p)) \<le> length p - 1" by simp
        from pne have "0 < length p" by simp
        with eq le show False by linarith
      qed
      with d1 nosuffix pne show ?thesis
        by (simp add: w'_def excl stat_put)
    qed
    from pre new show ?thesis by blast
  qed
  have keep: "w' = w" if nosuffix: "\<not> HasSuffix t ''/''" and some: "stat w p \<noteq> None"
  proof -
    from wf some have "stat w (butlast p) = Some Directory"
      by (simp add: wellFormed_def)
    then have "w1 = w"
      by (simp add: w1_def mkdirAllAt.simps [of w "butlast p"] ignoring_def)
    moreover from some have "stat w1 p \<noteq> None"
      by (simp add: frame1)
    with nosuffix have "w' = w1"
      by (auto simp: w'_def excl)
    ultimately show ?thesis by simp
  qed
  show ?thesis
    unfolding t_def [symmetric] full_def [symmetric]
  proof (intro exI [of _ p] exI [of _ w'] exI [of _ "m\<lparr>mode := ModeBrowse, browse := b\<rparr>"] conjI)
    show "resolve w full = Some p" by (rule rp)
    show "handleInput w m = Inr (m\<lparr>mode := ModeBrowse, browse := b\<rparr>, w')" by (rule h)
    show "\<forall>r. stat w r \<noteq> None \<longrightarrow> stat w' r = stat w r" by (rule frame)
    show "HasSuffix t ''/'' \<and> noFileOnPath w p \<longrightarrow>
            (\<forall>k\<le>length p. stat w' (take k p) = Some Directory)"
      using dirs by blast
    show "\<not> HasSuffix t ''/'' \<and> noFileOnPath w (butlast p) \<longrightarrow>
            (\<forall>k<length p. stat w' (take k p) = Some Directory) \<and>
            (stat w p = None \<longrightarrow> stat w' p = Some (RegularFile []))"
      using fileCase by blast
    show "\<not> HasSuffix t ''/'' \<and> stat w p \<noteq> None \<longrightarrow> w' = w"
      using keep by blast
  qed
qed

lemma wellFormed_homeWorld: "wellFormed homeWorld"
  by (auto simp: wellFormed_def stat_def homeWorld_def split: if_splits)

lemma noFile_logs: "noFileOnPath homeWorld [''home'', ''logs'', ''sub'']"
  by (auto simp: noFileOnPath_def le_Suc_eq stat_def homeWorld_def)

lemma noFile_x: "noFileOnPath homeWorld (butlast [''home'', ''x'', ''new.txt''])"
  by (auto simp: noFileOnPath_def le_Suc_eq stat_def homeWorld_def)

text \<open>The claim as it stands names the path \<open>cwd/buffer\<close>. With a blank after
  \<open>new.txt\<close> in the buffer the file \<open>/home/new.txt\<close> is created and nothing is at
  the path of the buffer itself; with a buffer of one blank nothing is created.\<close>

theorem create_commit_trailing_space_counterexample:
  "TrimSpace ''new.txt '' = ''new.txt'' \<and>
   map_sum id snd (handleInput homeWorld (homeInput ''create'' ''new.txt '')) =
     Inr (put [''home'', ''new.txt''] (RegularFile []) homeWorld) \<and>
   resolve homeWorld (''/home/'' @ ''new.txt '') = Some [''home'', ''new.txt ''] \<and>
   stat (put [''home'', ''new.txt''] (RegularFile []) homeWorld) [''home'', ''new.txt ''] = None \<and>
   handleInput homeWorld (homeInput ''create'' '' '') = Inr (homeInput ''create'' '' '', homeWorld) \<and>
   resolve homeWorld (''/home/'' @ '' '') = Some [''home'', '' ''] \<and>
   stat homeWorld [''home'', '' ''] = None"
  by code_simp

theorem create_commit_witness:
  "wellFormed homeWorld \<and>
   (\<exists>w' m'. handleInput homeWorld (homeInput ''create'' ''logs/sub/'') = Inr (m', w') \<and>
      stat w' [''home'', ''logs''] = Some Directory \<and>
      stat w' [''home'', ''logs'', ''sub''] = Some Directory \<and>
      stat w' [''home'', ''a.txt''] = Some (RegularFile ''aaa'')) \<and>
   (\<exists>w' m'. handleInput homeWorld (homeInput ''create'' ''x/new.txt'') = Inr (m', w') \<and>
      stat w' [''home'', ''x''] = Some Directory \<and>
      stat w' [''home'', ''x'', ''new.txt''] = Some (RegularFile [])) \<and>
   (\<exists>m'. handleInput homeWorld (homeInput ''create'' ''a.txt'') = Inr (m', homeWorld))"
proof -
  have abs: "cwd (homeInput tg bf) \<noteq> [] \<and> hd (cwd (homeInput tg bf)) = CHR ''/''" for tg bf
    by (simp add: homeInput_def homeBrowsing_def homeModel_def)
  have tgt: "inputTarget (homeInput ''create'' bf) = ''create''" for bf
    by (simp add: homeInput_def)
  have 1: "TrimSpace (input (homeInput ''create'' ''logs/sub/'')) = ''logs/sub/''"
    and 2: "TrimSpace (input (homeInput ''create'' ''x/new.txt'')) = ''x/new.txt''"
    and 3: "TrimSpace (input (homeInput ''create'' ''a.txt'')) = ''a.txt''"
    by code_simp+
  have r1: "resolve homeWorld (Join (cwd (homeInput ''create'' ''logs/sub/'')) ''logs/sub/'') =
              Some [''home'', ''logs'', ''sub'']"
    and r2: "resolve homeWorld (Join (cwd (homeInput ''create'' ''x/new.txt'')) ''x/new.txt'') =
              Some [''home'', ''x'', ''new.txt'']"
    and r3: "resolve homeWorld (Join (cwd (homeInput ''create'' ''a.txt'')) ''a.txt'') =
              Some [''home'', ''a.txt'']"
    by code_simp+
  have s1: "HasSuffix ''logs/sub/'' ''/''" and s2: "\<not> HasSuffix ''x/new.txt'' ''/''"
    and s3: "\<not> HasSuffix ''a.txt'' ''/''"
    by code_simp+
  have e2: "stat homeWorld [''home'', ''x'', ''new.txt''] = None"
    and e3: "stat homeWorld [''home'', ''a.txt''] = Some (RegularFile ''aaa'')"
    by code_simp+
  have A: "\<exists>w' m'. handleInput homeWorld (homeInput ''create'' ''logs/sub/'') = Inr (m', w') \<and>
      stat w' [''home'', ''logs''] = Some Directory \<and>
      stat w' [''home'', ''logs'', ''sub''] = Some Directory \<and>
      stat w' [''home'', ''a.txt''] = Some (RegularFile ''aaa'')"
  proof -
    from create_commit [OF wellFormed_homeWorld abs tgt, of "''logs/sub/''"] 1 r1
    obtain w' m' where h: "handleInput homeWorld (homeInput ''create'' ''logs/sub/'') = Inr (m', w')"
      and f: "\<forall>r. stat homeWorld r \<noteq> None \<longrightarrow> stat w' r = stat homeWorld r"
      and d: "HasSuffix ''logs/sub/'' ''/'' \<and> noFileOnPath homeWorld [''home'', ''logs'', ''sub''] \<longrightarrow>
                (\<forall>k\<le>length [''home'', ''logs'', ''sub''].
                   stat w' (take k [''home'', ''logs'', ''sub'']) = Some Directory)"
      by auto
    from d s1 noFile_logs
    have al: "\<forall>k\<le>length [''home'', ''logs'', ''sub''].
                 stat w' (take k [''home'', ''logs'', ''sub'']) = Some Directory"
      by blast
    from al [rule_format, of 2] al [rule_format, of 3]
    have "stat w' (take 2 [''home'', ''logs'', ''sub'']) = Some Directory"
      and "stat w' (take 3 [''home'', ''logs'', ''sub'']) = Some Directory"
      by simp_all
    with h f e3 show ?thesis by simp
  qed
  have B: "\<exists>w' m'. handleInput homeWorld (homeInput ''create'' ''x/new.txt'') = Inr (m', w') \<and>
      stat w' [''home'', ''x''] = Some Directory \<and>
      stat w' [''home'', ''x'', ''new.txt''] = Some (RegularFile [])"
  proof -
    from create_commit [OF wellFormed_homeWorld abs tgt, of "''x/new.txt''"] 2 r2
    obtain w' m' where h: "handleInput homeWorld (homeInput ''create'' ''x/new.txt'') = Inr (m', w')"
      and d: "\<not> HasSuffix ''x/new.txt'' ''/'' \<and>
              noFileOnPath homeWorld (butlast [''home'', ''x'', ''new.txt'']) \<longrightarrow>
                (\<forall>k<length [''home'', ''x'', ''new.txt''].
                   stat w' (take k [''home'', ''x'', ''new.txt'']) = Some Directory) \<and>
                (stat homeWorld [''home'', ''x'', ''new.txt''] = None \<longrightarrow>
                   stat w' [''home'', ''x'', ''new.txt''] = Some (RegularFile []))"
      by auto
    from d s2 noFile_x e2
    have al: "\<forall>k<length [''home'', ''x'', ''new.txt''].
                 stat w' (take k [''home'', ''x'', ''new.txt'']) = Some Directory"
      and new: "stat w' [''home'', ''x'', ''new.txt''] = Some (RegularFile [])"
      by blast+
    from al [rule_format, of 2] new
    have "stat w' (take 2 [''home'', ''x'', ''new.txt'']) = Some Directory"
      and "stat w' [''home'', ''x'', ''new.txt''] = Some (RegularFile [])"
      by simp_all
    with h show ?thesis by simp
  qed
  have C: "\<exists>m'. handleInput homeWorld (homeInput ''create'' ''a.txt'') = Inr (m', homeWorld)"
  proof -
    from create_commit [OF wellFormed_homeWorld abs tgt, of "''a.txt''"] 3 r3
    obtain w' m' where h: "handleInput homeWorld (homeInput ''create'' ''a.txt'') = Inr (m', w')"
      and d: "\<not> HasSuffix ''a.txt'' ''/'' \<and> stat homeWorld [''home'', ''a.txt''] \<noteq> None \<longrightarrow>
                w' = homeWorld"
      by auto
    with s3 e3 show ?thesis by auto
  qed
  from wellFormed_homeWorld A B C show ?thesis by blast
qed

subsection \<open>Paste\<close>

lemma map_of_filter_key:
  "map_of (filter (\<lambda>(q, n). q \<noteq> k) xs) r = (if r = k then None else map_of xs r)"
  by (induction xs) auto

lemma stat_unlink:
  "stat (w\<lparr>files := filter (\<lambda>(q, n). q \<noteq> k) (files w)\<rparr>) r =
     (if r = k \<and> r \<noteq> [] then None else stat w r)"
  by (simp add: stat_def map_of_filter_key)


lemma Rename_fresh:
  assumes "resolve w src = Some ps" and "stat w ps = Some (RegularFile b)"
    and "resolve w dst = Some pd" and "stat w pd = None"
    and "stat w (butlast pd) = Some Directory"
  shows "ignoring w (Rename w src dst) =
           put pd (RegularFile b) (w\<lparr>files := filter (\<lambda>(q, n). q \<noteq> ps) (files w)\<rparr>)"
proof -
  from assms(2,4) have neq: "ps \<noteq> pd" by auto
  show ?thesis
    using assms neq
    by (simp add: Rename_def parentCheck_def ignoring_def)
qed

lemma Split_append:
  "Split (x @ c # y) c = Split x c @ Split y c"
  by (induction x) (auto split: list.splits simp: Split_not_Nil)

lemma walkStep_cleanStep:
  "\<forall>x\<in>set out. validName x \<Longrightarrow> walkStep out e = cleanStep True out e"
  by (cases out rule: rev_cases) (auto simp: walkStep_def cleanStep_def validName_def)

lemma foldl_walkStep_cleanStep:
  "\<forall>x\<in>set out. validName x \<Longrightarrow> \<forall>e\<in>set es. CHR ''/'' \<notin> set e \<Longrightarrow>
   foldl walkStep out es = foldl (cleanStep True) out es"
proof (induction es arbitrary: out)
  case Nil
  then show ?case by simp
next
  case (Cons e es)
  from Cons.prems have "\<forall>x\<in>set (cleanStep True out e). validName x"
    by (intro cleanStep_keeps_valid) simp_all
  with Cons show ?case by (simp add: walkStep_cleanStep)
qed

lemma resolve_absolute:
  "d \<noteq> [] \<Longrightarrow> hd d = CHR ''/'' \<Longrightarrow> resolve w d = Some (elements d)"
  unfolding resolve_def elements_def
  by (simp add: foldl_walkStep_cleanStep Split_no_sep)

lemma elements_child:
  assumes "validName b"
  shows "elements (d @ ''/'' @ b) = elements d @ [b]"
proof -
  from assms have "CHR ''/'' \<notin> set b" by (simp add: validName_def)
  then have "Split (d @ ''/'' @ b) (CHR ''/'') = Split d (CHR ''/'') @ [b]"
    by (simp add: Split_append Split_sep_free)
  with assms show ?thesis
    by (simp add: elements_def cleanStep_valid)
qed

lemma resolve_child:
  assumes "d \<noteq> []" and "hd d = CHR ''/''" and "validName b"
  shows "resolve w (Join d b) = Some (elements d @ [b])"
proof -
  have "\<forall>x\<in>set (elements d @ [b]). validName x"
    using elements_valid [of d] assms(3) by simp
  then have "resolve w (''/'' @ Join_strings (elements d @ [b]) ''/'') = Some (elements d @ [b])"
    by (rule resolve_rooted)
  then show ?thesis
    using elements_child [OF assms(3), of d] by (simp add: Join_rooted [OF assms(1,2)])
qed


subsection \<open>The last element of a resolved path\<close>






subsection \<open>Paths below a path\<close>








subsection \<open>One round of the paste loop\<close>
















subsection \<open>The snapshot\<close>

lemma Base_child:
  assumes "validName b"
  shows "Base (p @ ''/'' @ b) = b"
proof -
  from assms have ne: "b \<noteq> []" and nosep: "CHR ''/'' \<notin> set b"
    by (simp_all add: validName_def)
  from ne nosep have "hd (rev b) \<noteq> CHR ''/''"
    by (metis hd_rev last_in_set)
  with ne have keep: "dropWhile (\<lambda>c. c = CHR ''/'') (rev b @ CHR ''/'' # rev p) = rev b @ CHR ''/'' # rev p"
    by (cases "rev b") simp_all
  have "takeWhile (\<lambda>c. c \<noteq> CHR ''/'') (rev b @ CHR ''/'' # rev p) = rev b"
    using nosep by (subst takeWhile_append2) auto
  with keep ne show ?thesis
    by (simp add: Base_def Let_def)
qed

lemma Base_Join:
  assumes "d \<noteq> []" and "hd d = CHR ''/''" and "validName b"
  shows "Base (Join d b) = b"
proof -
  have "Join d b = ''/'' @ Join_strings (elements d @ [b]) ''/''"
    using elements_child [OF assms(3), of d] by (simp add: Join_rooted [OF assms(1,2)])
  then have "\<exists>p. Join d b = p @ ''/'' @ b"
    by (cases "elements d = []") (auto simp: Join_strings_snoc)
  then obtain p where "Join d b = p @ ''/'' @ b" by blast
  with Base_child [OF assms(3), of p] show ?thesis by simp
qed

text \<open>The paths the catalog offers for marking: in a directory with an absolute path,
  every entry but the parent link has the path of its name joined to the directory, and
  a proper base name.\<close>

lemma catalog_base_names:
  assumes "cwd m \<noteq> []" and "hd (cwd m) = CHR ''/''" and "ReadDir w (cwd m) = Inr es"
  shows "\<exists>m'. refreshBrowse w m = Inr m' \<and>
           (\<forall>i\<in>set (items (browse m')). \<not> isParent i \<longrightarrow>
              path i = Join (cwd m) (name i) \<and> Base (path i) = name i \<and> validName (Base (path i)))"
proof -
  from refreshBrowse_shape [OF assms(3)] obtain m' where
    r: "refreshBrowse w m = Inr m'"
    and i: "items (browse m') =
             parentLink (cwd m) @
             map (\<lambda>e. \<lparr>name = Name e, path = Join (cwd m) (Name e), isDir = True, isParent = False\<rparr>)
               (filter IsDir (filter (\<lambda>e. showHidden m \<or> hd (Name e) \<noteq> CHR ''.'') es)) @
             map (\<lambda>e. \<lparr>name = Name e, path = Join (cwd m) (Name e), isDir = False, isParent = False\<rparr>)
               (filter (\<lambda>e. \<not> IsDir e) (filter (\<lambda>e. showHidden m \<or> hd (Name e) \<noteq> CHR ''.'') es))"
    by blast
  have "path i = Join (cwd m) (name i) \<and> Base (path i) = name i \<and> validName (Base (path i))"
    if "i \<in> set (items (browse m'))" and "\<not> isParent i" for i
  proof -
    from that obtain e where e: "e \<in> set es" and n: "name i = Name e"
      and p: "path i = Join (cwd m) (Name e)"
      unfolding i by (auto simp: parentLink_def split: if_splits)
    from ReadDir_names [OF assms(3) e] have v: "validName (Name e)" .
    from Base_Join [OF assms(1,2) v] n p v show ?thesis by simp
  qed
  with r show ?thesis by blast
qed

text \<open>The snapshot is the list of the keys of the map \<open>marked\<close>, which a mark
  extends by the path of a catalog entry: no path is in it twice.\<close>

lemma keys_update_distinct:
  "distinct (keys mk) \<Longrightarrow> distinct (keys (AList.update p v mk))"
  by (simp add: keys_def distinct_update)





subsection \<open>The name a commit creates\<close>

lemma HasSuffix_separator: "HasSuffix t ''/'' \<Longrightarrow> CHR ''/'' \<in> set t"
proof -
  assume "HasSuffix t ''/''"
  then have "drop (length t - 1) t = ''/''" by (simp add: HasSuffix_def)
  then have "CHR ''/'' \<in> set (drop (length t - 1) t)" by simp
  then show ?thesis by (rule in_set_dropD)
qed

text \<open>A commit with a single name in the (trimmed) buffer, in an existing directory
  where the name is free: target Create makes an empty file of that name, target Rename
  moves the selected file to that name.\<close>

lemma commitInput_create_name:
  assumes dne: "cwd m \<noteq> []" and dabs: "hd (cwd m) = CHR ''/''"
    and dir: "stat w (elements (cwd m)) = Some Directory"
    and v: "validName t" and fr: "stat w (elements (cwd m) @ [t]) = None"
    and tgt: "inputTarget m = ''create''"
  shows "commitInput w m t = Inr (put (elements (cwd m) @ [t]) (RegularFile []) w)"
proof -
  have rp: "resolve u (Join (cwd m) t) = Some (elements (cwd m) @ [t])" for u
    by (rule resolve_child [OF dne dabs v])
  from Join_resolves [OF dne dabs, of t] obtain p where
    "\<And>u. resolve u (Join (cwd m) t) = Some p"
    and rd': "\<And>u. resolve u (Dir (Join (cwd m) t)) = Some (butlast p)"
    by blast
  with rp [of w] have "p = elements (cwd m) @ [t]" by simp
  with rd' have rd: "resolve u (Dir (Join (cwd m) t)) = Some (elements (cwd m))" for u
    by simp
  from v have ns: "\<not> HasSuffix t ''/''"
    using HasSuffix_separator [of t] by (auto simp: validName_def)
  have mk: "ignoring w (MkdirAll w (Dir (Join (cwd m) t))) = w"
    by (simp add: MkdirAll_def rd mkdirAllAt.simps [of w "elements (cwd m)"] dir ignoring_def)
  have "ignoring w (OpenFile_CREATE_EXCL w (Join (cwd m) t)) =
          put (elements (cwd m) @ [t]) (RegularFile []) w"
    using OpenFile_CREATE_EXCL_at [OF rp, of w] fr dir by simp
  with mk ns tgt show ?thesis
    by (simp add: commitInput_def Let_def)
qed

lemma commitInput_rename_name:
  assumes dne: "cwd m \<noteq> []" and dabs: "hd (cwd m) = CHR ''/''"
    and dir: "stat w (elements (cwd m)) = Some Directory"
    and v: "validName t" and fr: "stat w (elements (cwd m) @ [t]) = None"
    and tgt: "inputTarget m = ''rename''" and sel: "SelectedItem (browse m) = Some item"
    and rs: "resolve w (path item) = Some ps" and st: "stat w ps = Some (RegularFile b)"
  shows "commitInput w m t =
           Inr (put (elements (cwd m) @ [t]) (RegularFile b)
                  (w\<lparr>files := filter (\<lambda>(q, n). q \<noteq> ps) (files w)\<rparr>))"
proof -
  have "stat w (butlast (elements (cwd m) @ [t])) = Some Directory"
    using dir by simp
  from Rename_fresh [OF rs st resolve_child [OF dne dabs v] fr this] tgt sel
  show ?thesis
    by (simp add: commitInput_def Let_def)
qed

lemma handleInput_commits:
  assumes "TrimSpace (input m) \<noteq> []" and "commitInput w m (TrimSpace (input m)) = Inr w'"
  shows "\<exists>m'. handleInput w m = Inr (m', w')"
proof -
  obtain b where
    "refreshBrowse w' (m\<lparr>mode := ModeBrowse\<rparr>) = Inr (m\<lparr>mode := ModeBrowse, browse := b\<rparr>)"
    using refreshBrowse_returns [of w' "m\<lparr>mode := ModeBrowse\<rparr>"] by auto
  with assms show ?thesis
    by (simp add: handleInput_alt andThen_def)
qed

text \<open>
  C10, amended. \<open>handleInput\<close> uses the buffer only through \<open>TrimSpace\<close>: it does to
  the file system and to the model what it does for the trimmed buffer, which neither
  starts nor ends with white space; a buffer made of white space only trims to the
  empty buffer, and the commit does nothing. Otherwise the file system after the commit
  is what the switch over the target makes of the trimmed buffer, joined to the current
  directory by \<open>Join\<close>. When the trimmed buffer is a single name
  that is free in the current directory (an existing directory with an absolute path),
  the commit makes exactly that name: with target Create an empty file of that name
  stands in the current directory afterwards, with target Rename the selected file has
  moved to that name, and nothing else has changed.
\<close>

theorem handleInput_stripped_name:
  assumes abs: "cwd m \<noteq> [] \<and> hd (cwd m) = CHR ''/''"
    and dir: "nodeAt w (cwd m) = Some Directory"
  shows "handleInput w (m\<lparr>input := s\<rparr>) =
           andThen (handleInput w (m\<lparr>input := TrimSpace s\<rparr>))
             (\<lambda>(m', w'). Inr (m'\<lparr>input := s\<rparr>, w')) \<and>
         leadingSpace (TrimSpace s) = None \<and> trailingSpace (TrimSpace s) = None \<and>
         (set ws \<subseteq> set unicodeSpace \<longrightarrow>
            handleInput w (m\<lparr>input := concat ws\<rparr>) = Inr (m\<lparr>input := concat ws\<rparr>, w)) \<and>
         (TrimSpace s \<noteq> [] \<longrightarrow>
            map_sum id snd (handleInput w (m\<lparr>input := s\<rparr>)) = commitInput w m (TrimSpace s)) \<and>
         (validName (TrimSpace s) \<and> nodeAt w (Join (cwd m) (TrimSpace s)) = None \<longrightarrow>
            resolve w (Join (cwd m) (TrimSpace s)) = Some (elements (cwd m) @ [TrimSpace s]) \<and>
            (inputTarget m = ''create'' \<longrightarrow>
               (\<exists>m' w'. handleInput w (m\<lparr>input := s\<rparr>) = Inr (m', w') \<and>
                  stat w' (elements (cwd m) @ [TrimSpace s]) = Some (RegularFile []) \<and>
                  (\<forall>r. r \<noteq> elements (cwd m) @ [TrimSpace s] \<longrightarrow> stat w' r = stat w r))) \<and>
            (inputTarget m = ''rename'' \<longrightarrow>
               (\<forall>item ps b. SelectedItem (browse m) = Some item \<and>
                    resolve w (path item) = Some ps \<and> stat w ps = Some (RegularFile b) \<longrightarrow>
                  (\<exists>m' w'. handleInput w (m\<lparr>input := s\<rparr>) = Inr (m', w') \<and>
                     stat w' (elements (cwd m) @ [TrimSpace s]) = Some (RegularFile b) \<and>
                     stat w' ps = None \<and>
                     (\<forall>r. r \<noteq> elements (cwd m) @ [TrimSpace s] \<and> r \<noteq> ps \<longrightarrow>
                          stat w' r = stat w r)))))"
proof -
  define t where "t = TrimSpace s"
  define p where "p = elements (cwd m) @ [t]"
  define mm where "mm = m\<lparr>input := s\<rparr>"
  from abs have dne: "cwd mm \<noteq> []" and dabs: "hd (cwd mm) = CHR ''/''"
    by (simp_all add: mm_def)
  have cw: "cwd mm = cwd m" and inp: "TrimSpace (input mm) = t"
    by (simp_all add: mm_def t_def)
  from dir have sdir: "stat w (elements (cwd mm)) = Some Directory"
    using resolve_absolute [OF dne dabs, of w] by (simp add: nodeAt_def cw)
  have named: "resolve w (Join (cwd m) t) = Some p \<and>
               (inputTarget m = ''create'' \<longrightarrow>
                  (\<exists>m' w'. handleInput w mm = Inr (m', w') \<and>
                     stat w' p = Some (RegularFile []) \<and>
                     (\<forall>r. r \<noteq> p \<longrightarrow> stat w' r = stat w r))) \<and>
               (inputTarget m = ''rename'' \<longrightarrow>
                  (\<forall>item ps b. SelectedItem (browse m) = Some item \<and>
                       resolve w (path item) = Some ps \<and> stat w ps = Some (RegularFile b) \<longrightarrow>
                     (\<exists>m' w'. handleInput w mm = Inr (m', w') \<and>
                        stat w' p = Some (RegularFile b) \<and> stat w' ps = None \<and>
                        (\<forall>r. r \<noteq> p \<and> r \<noteq> ps \<longrightarrow> stat w' r = stat w r))))"
    if v: "validName t" and free: "nodeAt w (Join (cwd m) t) = None"
  proof -
    have rp: "resolve w (Join (cwd m) t) = Some p"
      unfolding p_def using resolve_child [OF dne dabs v, of w] by (simp add: cw)
    with free have fr: "stat w (elements (cwd mm) @ [t]) = None"
      by (simp add: nodeAt_def p_def cw)
    then have pne: "p \<noteq> []" by (simp add: p_def)
    from v have tne: "TrimSpace (input mm) \<noteq> []" by (auto simp: inp validName_def)
    have create: "\<exists>m' w'. handleInput w mm = Inr (m', w') \<and>
                     stat w' p = Some (RegularFile []) \<and>
                     (\<forall>r. r \<noteq> p \<longrightarrow> stat w' r = stat w r)"
      if tgt: "inputTarget m = ''create''"
    proof -
      from tgt have "inputTarget mm = ''create''" by (simp add: mm_def)
      from commitInput_create_name [OF dne dabs sdir v fr this]
      have "commitInput w mm (TrimSpace (input mm)) = Inr (put p (RegularFile []) w)"
        by (simp add: inp p_def cw)
      from handleInput_commits [OF tne this] obtain m' where
        "handleInput w mm = Inr (m', put p (RegularFile []) w)" by blast
      moreover have "stat (put p (RegularFile []) w) p = Some (RegularFile [])"
        using pne by (simp add: stat_put)
      moreover have "\<forall>r. r \<noteq> p \<longrightarrow> stat (put p (RegularFile []) w) r = stat w r"
        by (simp add: stat_put)
      ultimately show ?thesis by blast
    qed
    have rename: "\<exists>m' w'. handleInput w mm = Inr (m', w') \<and>
                    stat w' p = Some (RegularFile b) \<and> stat w' ps = None \<and>
                    (\<forall>r. r \<noteq> p \<and> r \<noteq> ps \<longrightarrow> stat w' r = stat w r)"
      if tgt: "inputTarget m = ''rename''" and sel: "SelectedItem (browse m) = Some item"
        and rs: "resolve w (path item) = Some ps" and st: "stat w ps = Some (RegularFile b)"
      for item ps b
    proof -
      define w' where
        "w' = put p (RegularFile b) (w\<lparr>files := filter (\<lambda>(q, n). q \<noteq> ps) (files w)\<rparr>)"
      from tgt have tg: "inputTarget mm = ''rename''" by (simp add: mm_def)
      from sel have sl: "SelectedItem (browse mm) = Some item" by (simp add: mm_def)
      from st have psne: "ps \<noteq> []" by (auto simp: stat_def)
      from st fr have neq: "ps \<noteq> p" by (auto simp: p_def cw)
      from commitInput_rename_name [OF dne dabs sdir v fr tg sl rs st]
      have "commitInput w mm (TrimSpace (input mm)) = Inr w'"
        by (simp add: inp p_def cw w'_def)
      from handleInput_commits [OF tne this] obtain m' where
        "handleInput w mm = Inr (m', w')" by blast
      moreover have "stat w' p = Some (RegularFile b)"
        using pne by (simp add: w'_def stat_put)
      moreover have "stat w' ps = None"
        using psne neq by (simp add: w'_def stat_put stat_unlink)
      moreover have "\<forall>r. r \<noteq> p \<and> r \<noteq> ps \<longrightarrow> stat w' r = stat w r"
        by (simp add: w'_def stat_put stat_unlink)
      ultimately show ?thesis by blast
    qed
    from rp create rename show ?thesis by blast
  qed
  have a: "handleInput w (m\<lparr>input := s\<rparr>) =
             andThen (handleInput w (m\<lparr>input := TrimSpace s\<rparr>))
               (\<lambda>(m', w'). Inr (m'\<lparr>input := s\<rparr>, w'))"
    by (rule handleInput_via_trimmed)
  have b: "leadingSpace (TrimSpace s) = None" and c: "trailingSpace (TrimSpace s) = None"
    by (rule TrimSpace_no_space)+
  have e: "set ws \<subseteq> set unicodeSpace \<longrightarrow>
             handleInput w (m\<lparr>input := concat ws\<rparr>) = Inr (m\<lparr>input := concat ws\<rparr>, w)"
    by (simp add: handleInput_blank TrimSpace_spaces)
  have g: "TrimSpace s \<noteq> [] \<longrightarrow>
             map_sum id snd (handleInput w (m\<lparr>input := s\<rparr>)) = commitInput w m (TrimSpace s)"
  proof
    assume ne: "TrimSpace s \<noteq> []"
    show "map_sum id snd (handleInput w (m\<lparr>input := s\<rparr>)) = commitInput w m (TrimSpace s)"
    proof (cases "commitInput w m (TrimSpace s)")
      case (Inl e)
      with ne show ?thesis
        by (simp add: handleInput_alt commitInput_input andThen_def)
    next
      case (Inr w')
      with ne have "commitInput w mm (TrimSpace (input mm)) = Inr w'"
        by (simp add: mm_def commitInput_input)
      moreover from ne have "TrimSpace (input mm) \<noteq> []" by (simp add: mm_def)
      ultimately obtain m' where "handleInput w mm = Inr (m', w')"
        using handleInput_commits by blast
      with Inr show ?thesis by (simp add: mm_def)
    qed
  qed
  from a b c e g named show ?thesis
    unfolding t_def p_def mm_def by blast
qed

text \<open>The claim as it stands lets no name carry white space from the buffer. The
  buffer is trimmed at its two ends only: with the buffer \<open>x /\<close> the directory made
  in \<open>/home\<close> is named \<open>x\<close> followed by a blank, and with the buffer \<open>/ y\<close> the file
  made, or the name the selected file \<open>a.txt\<close> is moved to, is a blank followed by
  \<open>y\<close>.\<close>

theorem handleInput_separator_space_counterexample:
  "TrimSpace ''x /'' = ''x /'' \<and>
   map_sum id (files \<circ> snd) (handleInput homeWorld (homeInput ''create'' ''x /'')) =
     Inr (([''home'', ''x ''], Directory) # files homeWorld) \<and>
   trailingSpace ''x '' = Some '' '' \<and>
   TrimSpace ''/ y'' = ''/ y'' \<and>
   map_sum id (files \<circ> snd) (handleInput homeWorld (homeInput ''create'' ''/ y'')) =
     Inr (([''home'', '' y''], RegularFile []) # files homeWorld) \<and>
   map_sum id (files \<circ> snd) (handleInput homeWorld (homeInput ''rename'' ''/ y'')) =
     Inr [([''home'', '' y''], RegularFile ''aaa''), ([''home''], Directory),
          ([''home'', ''b.txt''], RegularFile ''bbb''), ([''home'', ''d''], Directory),
          ([''home'', ''.cfg''], RegularFile ''c'')] \<and>
   leadingSpace '' y'' = Some '' ''"
  by code_simp

theorem handleInput_stripped_name_witness:
  "TrimSpace ''  new.txt  '' = ''new.txt'' \<and>
   (\<exists>m' w'. handleInput homeWorld ((homeInput ''create'' [])\<lparr>input := ''  new.txt  ''\<rparr>) = Inr (m', w') \<and>
      stat w' [''home'', ''new.txt''] = Some (RegularFile []) \<and>
      stat w' [''home'', ''new.txt  ''] = None \<and>
      stat w' [''home'', ''  new.txt  ''] = None) \<and>
   TrimSpace '' c.txt '' = ''c.txt'' \<and>
   (\<exists>m' w'. handleInput homeWorld ((homeInput ''rename'' [])\<lparr>input := '' c.txt ''\<rparr>) = Inr (m', w') \<and>
      stat w' [''home'', ''c.txt''] = Some (RegularFile ''aaa'') \<and>
      stat w' [''home'', ''a.txt''] = None \<and>
      stat w' [''home'', '' c.txt ''] = None) \<and>
   TrimSpace '' sub/new.txt '' = ''sub/new.txt'' \<and>
   map_sum id snd (handleInput homeWorld ((homeInput ''create'' [])\<lparr>input := '' sub/new.txt ''\<rparr>)) =
     Inr (put [''home'', ''sub'', ''new.txt''] (RegularFile [])
            (put [''home'', ''sub''] Directory homeWorld)) \<and>
   set ['' '', [CHR 0x09], [CHR 0xC2, CHR 0xA0]] \<subseteq> set unicodeSpace \<and>
   handleInput homeWorld ((homeInput ''create'' [])\<lparr>input := concat ['' '', [CHR 0x09], [CHR 0xC2, CHR 0xA0]]\<rparr>) =
     Inr ((homeInput ''create'' [])\<lparr>input := concat ['' '', [CHR 0x09], [CHR 0xC2, CHR 0xA0]]\<rparr>, homeWorld)"
proof -
  have abs: "cwd (homeInput g []) \<noteq> [] \<and> hd (cwd (homeInput g [])) = CHR ''/''" for g
    by (simp add: homeInput_def homeBrowsing_def homeModel_def)
  have dir: "nodeAt homeWorld (cwd (homeInput g [])) = Some Directory" for g
    unfolding homeInput_def homeBrowsing_def homeModel_def by code_simp
  have cw: "cwd (homeInput g []) = ''/home''" and tg: "inputTarget (homeInput g []) = g" for g
    by (simp_all add: homeInput_def homeBrowsing_def homeModel_def)
  have el: "elements ''/home'' = [''home'']" by code_simp
  have t1: "TrimSpace ''  new.txt  '' = ''new.txt''" and t2: "TrimSpace '' c.txt '' = ''c.txt''"
    and v1: "validName ''new.txt''" and v2: "validName ''c.txt''"
    and f1: "nodeAt homeWorld (Join ''/home'' ''new.txt'') = None"
    and f2: "nodeAt homeWorld (Join ''/home'' ''c.txt'') = None"
    by code_simp+
  have sel: "SelectedItem (browse (homeInput ''rename'' [])) =
               Some \<lparr>name = ''a.txt'', path = ''/home/a.txt'', isDir = False, isParent = False\<rparr>"
    by code_simp
  have rs: "resolve homeWorld ''/home/a.txt'' = Some [''home'', ''a.txt'']"
    and st: "stat homeWorld [''home'', ''a.txt''] = Some (RegularFile ''aaa'')"
    and o1: "stat homeWorld [''home'', ''new.txt  ''] = None"
    and o2: "stat homeWorld [''home'', ''  new.txt  ''] = None"
    and o3: "stat homeWorld [''home'', '' c.txt ''] = None"
    by code_simp+
  have sp: "set ['' '', [CHR 0x09], [CHR 0xC2, CHR 0xA0]] \<subseteq> set unicodeSpace"
    by (simp add: unicodeSpace_def asciiSpace_def)
  note T1 = handleInput_stripped_name
        [OF abs [of "''create''"] dir [of "''create''"],
         where s = "''  new.txt  ''" and ws = "['' '', [CHR 0x09], [CHR 0xC2, CHR 0xA0]]"]
  note T2 = handleInput_stripped_name
        [OF abs [of "''rename''"] dir [of "''rename''"],
         where s = "'' c.txt ''" and ws = "[]"]
  note N1 = T1 [THEN conjunct2, THEN conjunct2, THEN conjunct2, THEN conjunct2, THEN conjunct2]
  note N2 = T2 [THEN conjunct2, THEN conjunct2, THEN conjunct2, THEN conjunct2, THEN conjunct2]
  have t3: "TrimSpace '' sub/new.txt '' = ''sub/new.txt''"
    and c3: "commitInput homeWorld (homeInput ''create'' []) ''sub/new.txt'' =
               Inr (put [''home'', ''sub'', ''new.txt''] (RegularFile [])
                      (put [''home'', ''sub''] Directory homeWorld))"
    by code_simp+
  from handleInput_stripped_name
        [OF abs [of "''create''"] dir [of "''create''"],
         where s = "'' sub/new.txt ''" and ws = "[]",
         THEN conjunct2, THEN conjunct2, THEN conjunct2, THEN conjunct2, THEN conjunct1]
  have G: "map_sum id snd (handleInput homeWorld ((homeInput ''create'' [])\<lparr>input := '' sub/new.txt ''\<rparr>)) =
     Inr (put [''home'', ''sub'', ''new.txt''] (RegularFile [])
            (put [''home'', ''sub''] Directory homeWorld))"
    by (simp add: t3 c3)
  note S1 = T1 [THEN conjunct2, THEN conjunct2, THEN conjunct2, THEN conjunct1]
  from N1 v1 f1 obtain m1 w1 where
    h1: "handleInput homeWorld ((homeInput ''create'' [])\<lparr>input := ''  new.txt  ''\<rparr>) = Inr (m1, w1)"
    and s1: "stat w1 [''home'', ''new.txt''] = Some (RegularFile [])"
    and r1: "\<forall>r. r \<noteq> [''home'', ''new.txt''] \<longrightarrow> stat w1 r = stat homeWorld r"
    by (auto simp: t1 cw tg el)
  from r1 o1 o2 have "stat w1 [''home'', ''new.txt  ''] = None"
    and "stat w1 [''home'', ''  new.txt  ''] = None"
    by simp_all
  with h1 s1 have A: "\<exists>m' w'. handleInput homeWorld ((homeInput ''create'' [])\<lparr>input := ''  new.txt  ''\<rparr>) = Inr (m', w') \<and>
      stat w' [''home'', ''new.txt''] = Some (RegularFile []) \<and>
      stat w' [''home'', ''new.txt  ''] = None \<and>
      stat w' [''home'', ''  new.txt  ''] = None"
    by blast
  from N2 v2 f2 sel rs st obtain m2 w2 where
    h2: "handleInput homeWorld ((homeInput ''rename'' [])\<lparr>input := '' c.txt ''\<rparr>) = Inr (m2, w2)"
    and s2: "stat w2 [''home'', ''c.txt''] = Some (RegularFile ''aaa'')"
    and g2: "stat w2 [''home'', ''a.txt''] = None"
    and r2: "\<forall>r. r \<noteq> [''home'', ''c.txt''] \<and> r \<noteq> [''home'', ''a.txt''] \<longrightarrow> stat w2 r = stat homeWorld r"
    by (auto simp: t2 cw tg el)
  from r2 o3 have "stat w2 [''home'', '' c.txt ''] = None"
    by simp
  with h2 s2 g2 have B: "\<exists>m' w'. handleInput homeWorld ((homeInput ''rename'' [])\<lparr>input := '' c.txt ''\<rparr>) = Inr (m', w') \<and>
      stat w' [''home'', ''c.txt''] = Some (RegularFile ''aaa'') \<and>
      stat w' [''home'', ''a.txt''] = None \<and>
      stat w' [''home'', '' c.txt ''] = None"
    by blast
  from S1 sp have C: "handleInput homeWorld ((homeInput ''create'' [])\<lparr>input := concat ['' '', [CHR 0x09], [CHR 0xC2, CHR 0xA0]]\<rparr>) =
     Inr ((homeInput ''create'' [])\<lparr>input := concat ['' '', [CHR 0x09], [CHR 0xC2, CHR 0xA0]]\<rparr>, homeWorld)"
    by blast
  from t1 t2 t3 A B G sp C show ?thesis by blast
qed

end
